theory Spec2Isabelle
  imports Complex_Main
begin

section \<open>Tensors: the part of numpy the optimizers use\<close>

text \<open>
  A numpy array is a shape and its elements in row-major order. Floating-point numbers
  are taken as reals: rounding and overflow are not modelled. An \<open>inf\<close> or a \<open>nan\<close>
  arises in the optimizers only from a division by zero or a square root of a negative
  number; numpy raises nothing there and goes on with such values, which the reals do
  not have. An array that holds one has \<open>vals = None\<close>: its shape is known, its
  elements are not followed any further, and every operation on it yields such an array
  again (of the shape numpy computes).
\<close>

record tensor =
  shape :: "nat list"
  vals :: "real list option"

definition real_tensor :: "tensor \<Rightarrow> bool" where
  "real_tensor a = (case vals a of None \<Rightarrow> False | Some xs \<Rightarrow> length xs = prod_list (shape a))"

definition tensor_of :: "nat list \<Rightarrow> real list \<Rightarrow> tensor" where
  "tensor_of s xs = \<lparr>shape = s, vals = Some xs\<rparr>"

text \<open>\<open>np.zeros_like\<close>: zeros in the shape of the argument, whatever its elements.\<close>

definition zeros_like :: "tensor \<Rightarrow> tensor" where
  "zeros_like a = \<lparr>shape = shape a, vals = Some (replicate (prod_list (shape a)) 0)\<rparr>"

subsection \<open>Broadcasting\<close>

text \<open>
  numpy aligns two shapes at their last axis; two extents are compatible when they are
  equal or one of them is 1, and a missing leading axis counts as 1. Incompatible shapes
  raise \<open>ValueError\<close> (here: \<open>None\<close>).
\<close>

fun broadcast_rev :: "nat list \<Rightarrow> nat list \<Rightarrow> nat list option" where
  "broadcast_rev [] ys = Some ys"
| "broadcast_rev (x # xs) [] = Some (x # xs)"
| "broadcast_rev (x # xs) (y # ys) =
     (if x = y \<or> y = 1 then map_option ((#) x) (broadcast_rev xs ys)
      else if x = 1 then map_option ((#) y) (broadcast_rev xs ys)
      else None)"

definition broadcast_shapes :: "nat list \<Rightarrow> nat list \<Rightarrow> nat list option" where
  "broadcast_shapes s1 s2 = map_option rev (broadcast_rev (rev s1) (rev s2))"

text \<open>
  \<open>expand src dst xs\<close> repeats the elements \<open>xs\<close> of an array of shape \<open>src\<close> (of the
  rank of \<open>dst\<close>) along every axis where \<open>src\<close> has extent 1 and \<open>dst\<close> has not.
\<close>

fun expand :: "nat list \<Rightarrow> nat list \<Rightarrow> real list \<Rightarrow> real list" where
  "expand (d # ds) (e # es) xs =
     (let n = prod_list ds;
          rows = map (\<lambda>i. expand ds es (take n (drop (i * n) xs))) [0..<d]
      in if d = e then concat rows else concat (replicate e (concat rows)))"
| "expand [] es xs = xs"
| "expand (d # ds) [] xs = xs"

definition broadcast_to :: "nat list \<Rightarrow> nat list \<Rightarrow> real list \<Rightarrow> real list" where
  "broadcast_to src dst xs = expand (replicate (length dst - length src) 1 @ src) dst xs"

subsection \<open>Elementwise operations\<close>

text \<open>Scalar with array: \<open>c * a\<close>, \<open>a * c\<close>, \<open>a / c\<close>, \<open>a + c\<close>, \<open>a ** 2\<close>, \<open>np.sqrt(a)\<close>.\<close>

definition scale :: "real \<Rightarrow> tensor \<Rightarrow> tensor" where
  "scale c a = \<lparr>shape = shape a, vals = map_option (map (\<lambda>x. c * x)) (vals a)\<rparr>"

definition times_scalar :: "tensor \<Rightarrow> real \<Rightarrow> tensor" where
  "times_scalar a c = \<lparr>shape = shape a, vals = map_option (map (\<lambda>x. x * c)) (vals a)\<rparr>"

definition div_scalar :: "tensor \<Rightarrow> real \<Rightarrow> tensor" where
  "div_scalar a c =
     \<lparr>shape = shape a,
      vals = (if c = 0 then None else map_option (map (\<lambda>x. x / c)) (vals a))\<rparr>"

definition plus_scalar :: "tensor \<Rightarrow> real \<Rightarrow> tensor" where
  "plus_scalar a c = \<lparr>shape = shape a, vals = map_option (map (\<lambda>x. x + c)) (vals a)\<rparr>"

definition square :: "tensor \<Rightarrow> tensor" where
  "square a = \<lparr>shape = shape a, vals = map_option (map (\<lambda>x. x ^ 2)) (vals a)\<rparr>"

definition sqrt_t :: "tensor \<Rightarrow> tensor" where
  "sqrt_t a =
     \<lparr>shape = shape a,
      vals = (case vals a of None \<Rightarrow> None
              | Some xs \<Rightarrow> if list_ex (\<lambda>x. x < 0) xs then None else Some (map sqrt xs))\<rparr>"

text \<open>Array with array, broadcast to the common shape: \<open>a + b\<close>, \<open>a - b\<close>, \<open>a / b\<close>.\<close>

definition both :: "'a option \<Rightarrow> 'b option \<Rightarrow> ('a \<times> 'b) option" where
  "both x y = (case x of None \<Rightarrow> None | Some u \<Rightarrow> map_option (Pair u) y)"

definition elementwise :: "(real \<Rightarrow> real \<Rightarrow> real) \<Rightarrow> tensor \<Rightarrow> tensor \<Rightarrow> tensor option" where
  "elementwise f a b =
     (case broadcast_shapes (shape a) (shape b) of
        None \<Rightarrow> None
      | Some s \<Rightarrow>
          Some \<lparr>shape = s,
                vals = (case both (vals a) (vals b) of
                          None \<Rightarrow> None
                        | Some (xs, ys) \<Rightarrow>
                            Some (map2 f (broadcast_to (shape a) s xs)
                                         (broadcast_to (shape b) s ys)))\<rparr>)"

definition add_t :: "tensor \<Rightarrow> tensor \<Rightarrow> tensor option" where
  "add_t a b = elementwise (\<lambda>x y. x + y) a b"

definition sub_t :: "tensor \<Rightarrow> tensor \<Rightarrow> tensor option" where
  "sub_t a b = elementwise (\<lambda>x y. x - y) a b"

definition div_t :: "tensor \<Rightarrow> tensor \<Rightarrow> tensor option" where
  "div_t a b =
     (case broadcast_shapes (shape a) (shape b) of
        None \<Rightarrow> None
      | Some s \<Rightarrow>
          Some \<lparr>shape = s,
                vals = (case both (vals a) (vals b) of
                          None \<Rightarrow> None
                        | Some (xs, ys) \<Rightarrow>
                            (let ys' = broadcast_to (shape b) s ys
                             in if list_ex (\<lambda>y. y = 0) ys' then None
                                else Some (map2 (\<lambda>x y. x / y)
                                             (broadcast_to (shape a) s xs) ys')))\<rparr>)"

text \<open>
  In-place \<open>a += b\<close>: the result is written into \<open>a\<close>, so the common shape must be the
  shape of \<open>a\<close>; numpy raises \<open>ValueError\<close> otherwise.
\<close>

definition iadd_t :: "tensor \<Rightarrow> tensor \<Rightarrow> tensor option" where
  "iadd_t a b =
     (case broadcast_shapes (shape a) (shape b) of
        None \<Rightarrow> None
      | Some s \<Rightarrow> if s = shape a then add_t a b else None)"

text \<open>
  \<open>numpy.linalg.norm\<close> with its defaults: the square root of the sum of the squares of
  all elements, for every rank. \<open>None\<close> when the array holds an \<open>inf\<close> or a \<open>nan\<close>.
\<close>

definition norm_t :: "tensor \<Rightarrow> real option" where
  "norm_t a = map_option (\<lambda>xs. sqrt (sum_list (map (\<lambda>x. x ^ 2) xs))) (vals a)"

section \<open>Optimizer state\<close>

text \<open>
  A hyperparameter value is \<open>None\<close>, a number or a string. \<open>set_params\<close> can store any
  of them under any existing key, so \<open>update\<close> may find a value it cannot compute with;
  Python then raises \<open>TypeError\<close>, and \<open>KeyError\<close> for a key that is missing.
\<close>

datatype hval = HNone | HNum real | HStr string

datatype error = KeyError | TypeError | ValueError | ZeroDivisionError

text \<open>
  The learning-rate scheduler is not part of these sources. It is used as a callable
  from the step counter and the current loss (\<open>None\<close> when not given) to a rate.
\<close>

type_synonym scheduler = "int \<Rightarrow> real option \<Rightarrow> real"

text \<open>
  Modelled from the spec: the scheduler factory \<open>SchedulerInitializer\<close> of the module
  \<open>initializers\<close> is missing. Given a scheduler specification and an optional base rate
  it returns a scheduler; it is a parameter \<open>init\<close> of the operations that call it.
  Without a specification it yields the constant-rate scheduler of the base rate.
\<close>

type_synonym initializer = "hval \<Rightarrow> real option \<Rightarrow> scheduler"

definition ConstantScheduler :: "real \<Rightarrow> scheduler" where
  "ConstantScheduler lr = (\<lambda>step cur_loss. lr)"

text \<open>
  Modelled from the spec: a factory for concrete instances, which yields the constant-rate
  scheduler of the base rate for every specification (of rate 0 without a base rate), and
  a fixed text for \<open>str\<close> of a scheduler, whose own text is not in these sources.
\<close>

definition constant_initializer :: initializer where
  "constant_initializer spec lr = ConstantScheduler (case lr of None \<Rightarrow> 0 | Some r \<Rightarrow> r)"

definition scheduler_str :: "scheduler \<Rightarrow> string" where
  "scheduler_str f = ''scheduler''"

text \<open>
  \<open>OptimizerBase\<close>: the fields of an instance. \<open>'c\<close> is what the cache holds for a
  parameter name: an array for SGD, AdaGrad and RMSProp, an entry for Adam.
\<close>

record 'c optimizer =
  cache :: "string \<rightharpoonup> 'c"
  cur_step :: int
  hyperparameters :: "string \<rightharpoonup> hval"
  lr_scheduler :: scheduler

text \<open>Adam's cache entry, the dictionary with the keys \<open>t\<close>, \<open>mean\<close> and \<open>var\<close>.\<close>

record adam_entry =
  entry_t :: int
  entry_mean :: tensor
  entry_var :: tensor

text \<open>
  A call returns an array or raises; either way it leaves the instance in a state, which
  for an exception is the state reached when it was raised.
\<close>

datatype 'c result = Returned tensor "'c optimizer" | Raised error "'c optimizer"

fun state_of :: "'c result \<Rightarrow> 'c optimizer" where
  "state_of (Returned r self) = self"
| "state_of (Raised e self) = self"

section \<open>OptimizerBase\<close>

definition optimizer_init :: "initializer \<Rightarrow> real \<Rightarrow> hval \<Rightarrow> 'c optimizer" where
  "optimizer_init init lr sched =
     \<lparr>cache = Map.empty, cur_step = 0, hyperparameters = Map.empty,
      lr_scheduler = init sched (Some lr)\<rparr>"

definition step :: "'c optimizer \<Rightarrow> 'c optimizer" where
  "step self = self\<lparr>cur_step := cur_step self + 1\<rparr>"

definition reset_step :: "'c optimizer \<Rightarrow> 'c optimizer" where
  "reset_step self = self\<lparr>cur_step := 0\<rparr>"

text \<open>
  \<open>set_params\<close>: a dictionary argument is the list of its items in iteration order, and
  \<open>None\<close> when the argument is not given.
\<close>

fun set_hparams :: "initializer \<Rightarrow> 'c optimizer \<Rightarrow> (string \<times> hval) list \<Rightarrow> 'c optimizer" where
  "set_hparams init self [] = self"
| "set_hparams init self ((k, v) # kvs) =
     set_hparams init
       (case hyperparameters self k of
          None \<Rightarrow> self
        | Some old \<Rightarrow>
            (let self1 = self\<lparr>hyperparameters := (hyperparameters self)(k \<mapsto> v)\<rparr>
             in if k = ''lr_scheduler'' then self1\<lparr>lr_scheduler := init v None\<rparr> else self1))
       kvs"

fun set_cache :: "'c optimizer \<Rightarrow> (string \<times> 'c) list \<Rightarrow> 'c optimizer" where
  "set_cache self [] = self"
| "set_cache self ((k, v) # kvs) =
     set_cache
       (case cache self k of
          None \<Rightarrow> self
        | Some old \<Rightarrow> self\<lparr>cache := (cache self)(k \<mapsto> v)\<rparr>)
       kvs"

definition set_params ::
  "initializer \<Rightarrow> 'c optimizer \<Rightarrow> (string \<times> hval) list option \<Rightarrow> (string \<times> 'c) list option
     \<Rightarrow> 'c optimizer" where
  "set_params init self hparam_dict cache_dict =
     (let self1 = (case hparam_dict of None \<Rightarrow> self | Some kvs \<Rightarrow> set_hparams init self kvs)
      in case cache_dict of None \<Rightarrow> self1 | Some kvs \<Rightarrow> set_cache self1 kvs)"

text \<open>
  \<open>__call__\<close> hands its arguments to the \<open>update\<close> of the instance's class, here the
  first argument.
\<close>

definition optimizer_call ::
  "('c optimizer \<Rightarrow> tensor \<Rightarrow> tensor \<Rightarrow> string \<Rightarrow> real option \<Rightarrow> 'c result)
     \<Rightarrow> 'c optimizer \<Rightarrow> tensor \<Rightarrow> tensor \<Rightarrow> string \<Rightarrow> real option \<Rightarrow> 'c result" where
  "optimizer_call update self param param_grad param_name cur_loss =
     update self param param_grad param_name cur_loss"

section \<open>Gradient clipping\<close>

text \<open>
  The three lines every \<open>update\<close> shares:
  \<^verbatim>\<open>t = np.inf if clip_norm is None else clip_norm\<close>,
  \<^verbatim>\<open>if norm(param_grad) > t: param_grad = param_grad * t / norm(param_grad)\<close>.
  No norm exceeds \<open>inf\<close>, and a \<open>nan\<close> norm exceeds nothing. A gradient that holds an
  \<open>inf\<close> or a \<open>nan\<close> still does after these lines, in either branch.
\<close>

definition clip :: "hval \<Rightarrow> tensor \<Rightarrow> error + tensor" where
  "clip clip_norm param_grad =
     (case clip_norm of
        HNone \<Rightarrow> Inr param_grad
      | HStr w \<Rightarrow> Inl TypeError
      | HNum t \<Rightarrow>
          (case norm_t param_grad of
             None \<Rightarrow> Inr param_grad
           | Some n \<Rightarrow>
               if n > t then Inr (div_scalar (times_scalar param_grad t) n)
               else Inr param_grad))"

section \<open>SGD\<close>

definition SGD_init ::
  "initializer \<Rightarrow> (scheduler \<Rightarrow> string) \<Rightarrow> real \<Rightarrow> real \<Rightarrow> hval \<Rightarrow> hval \<Rightarrow> tensor optimizer" where
  "SGD_init init str lr momentum clip_norm sched =
     (let self = optimizer_init init lr sched
      in self\<lparr>hyperparameters :=
           [''id'' \<mapsto> HStr ''SGD'', ''lr'' \<mapsto> HNum lr, ''momentum'' \<mapsto> HNum momentum,
            ''clip_norm'' \<mapsto> clip_norm, ''lr_scheduler'' \<mapsto> HStr (str (lr_scheduler self))]\<rparr>)"

definition SGD_update ::
  "tensor optimizer \<Rightarrow> tensor \<Rightarrow> tensor \<Rightarrow> string \<Rightarrow> real option \<Rightarrow> tensor result" where
  "SGD_update self param param_grad param_name cur_loss =
     (case hyperparameters self ''momentum'' of None \<Rightarrow> Raised KeyError self | Some momentum \<Rightarrow>
     (case hyperparameters self ''clip_norm'' of None \<Rightarrow> Raised KeyError self | Some clip_norm \<Rightarrow>
     (let lr = lr_scheduler self (cur_step self) cur_loss;
          c = (case cache self param_name of None \<Rightarrow> zeros_like param_grad | Some old \<Rightarrow> old);
          self1 = self\<lparr>cache := (cache self)(param_name \<mapsto> c)\<rparr>
      in (case clip clip_norm param_grad of Inl e \<Rightarrow> Raised e self1 | Inr grad \<Rightarrow>
         (case momentum of
            HNone \<Rightarrow> Raised TypeError self1
          | HStr w \<Rightarrow> Raised TypeError self1
          | HNum m \<Rightarrow>
             (case add_t (scale m c) (scale lr grad) of
                None \<Rightarrow> Raised ValueError self1
              | Some update \<Rightarrow>
                  (let self2 = self1\<lparr>cache := (cache self1)(param_name \<mapsto> update)\<rparr>
                   in (case sub_t param update of
                         None \<Rightarrow> Raised ValueError self2
                       | Some r \<Rightarrow> Returned r self2))))))))"

section \<open>AdaGrad\<close>

definition AdaGrad_init ::
  "initializer \<Rightarrow> (scheduler \<Rightarrow> string) \<Rightarrow> real \<Rightarrow> real \<Rightarrow> hval \<Rightarrow> hval \<Rightarrow> tensor optimizer" where
  "AdaGrad_init init str lr eps clip_norm sched =
     (let self = optimizer_init init lr sched
      in self\<lparr>cache := Map.empty,
              hyperparameters :=
           [''id'' \<mapsto> HStr ''AdaGrad'', ''lr'' \<mapsto> HNum lr, ''eps'' \<mapsto> HNum eps,
            ''clip_norm'' \<mapsto> clip_norm, ''lr_scheduler'' \<mapsto> HStr (str (lr_scheduler self))]\<rparr>)"

text \<open>
  The last two lines of the adaptive methods,
  \<^verbatim>\<open>update = lr * grad / (np.sqrt(v) + eps)\<close> and \<^verbatim>\<open>return param - update\<close>,
  with \<open>num\<close> for \<open>lr * grad\<close> and \<open>v\<close> for the second-moment array.
\<close>

definition adaptive_step ::
  "'c optimizer \<Rightarrow> tensor \<Rightarrow> tensor \<Rightarrow> tensor \<Rightarrow> hval \<Rightarrow> 'c result" where
  "adaptive_step self param num v eps =
     (case eps of
        HNone \<Rightarrow> Raised TypeError self
      | HStr w \<Rightarrow> Raised TypeError self
      | HNum e \<Rightarrow>
          (case div_t num (plus_scalar (sqrt_t v) e) of
             None \<Rightarrow> Raised ValueError self
           | Some update \<Rightarrow>
               (case sub_t param update of
                  None \<Rightarrow> Raised ValueError self
                | Some r \<Rightarrow> Returned r self)))"

definition AdaGrad_update ::
  "tensor optimizer \<Rightarrow> tensor \<Rightarrow> tensor \<Rightarrow> string \<Rightarrow> real option \<Rightarrow> tensor result" where
  "AdaGrad_update self param param_grad param_name cur_loss =
     (case hyperparameters self ''eps'' of None \<Rightarrow> Raised KeyError self | Some eps \<Rightarrow>
     (case hyperparameters self ''clip_norm'' of None \<Rightarrow> Raised KeyError self | Some clip_norm \<Rightarrow>
     (let lr = lr_scheduler self (cur_step self) cur_loss;
          c = (case cache self param_name of None \<Rightarrow> zeros_like param_grad | Some old \<Rightarrow> old);
          self1 = self\<lparr>cache := (cache self)(param_name \<mapsto> c)\<rparr>
      in (case clip clip_norm param_grad of Inl e \<Rightarrow> Raised e self1 | Inr grad \<Rightarrow>
         (case iadd_t c (square grad) of
            None \<Rightarrow> Raised ValueError self1
          | Some c' \<Rightarrow>
              adaptive_step (self1\<lparr>cache := (cache self1)(param_name \<mapsto> c')\<rparr>)
                param (scale lr grad) c' eps)))))"

section \<open>RMSProp\<close>

definition RMSProp_init ::
  "initializer \<Rightarrow> (scheduler \<Rightarrow> string) \<Rightarrow> real \<Rightarrow> real \<Rightarrow> real \<Rightarrow> hval \<Rightarrow> hval
     \<Rightarrow> tensor optimizer" where
  "RMSProp_init init str lr decay eps clip_norm sched =
     (let self = optimizer_init init lr sched
      in self\<lparr>cache := Map.empty,
              hyperparameters :=
           [''id'' \<mapsto> HStr ''RMSProp'', ''lr'' \<mapsto> HNum lr, ''eps'' \<mapsto> HNum eps,
            ''decay'' \<mapsto> HNum decay, ''clip_norm'' \<mapsto> clip_norm,
            ''lr_scheduler'' \<mapsto> HStr (str (lr_scheduler self))]\<rparr>)"

text \<open>
  The moving average \<^verbatim>\<open>decay * old + (1 - decay) * x\<close> of RMSProp and of Adam's two
  moments; \<open>decay\<close> is a hyperparameter, so it may not be a number.
\<close>

definition moving_average :: "hval \<Rightarrow> tensor \<Rightarrow> tensor \<Rightarrow> error + tensor" where
  "moving_average decay old x =
     (case decay of
        HNone \<Rightarrow> Inl TypeError
      | HStr w \<Rightarrow> Inl TypeError
      | HNum d \<Rightarrow>
          (case add_t (scale d old) (scale (1 - d) x) of
             None \<Rightarrow> Inl ValueError
           | Some avg \<Rightarrow> Inr avg))"

definition RMSProp_update ::
  "tensor optimizer \<Rightarrow> tensor \<Rightarrow> tensor \<Rightarrow> string \<Rightarrow> real option \<Rightarrow> tensor result" where
  "RMSProp_update self param param_grad param_name cur_loss =
     (case hyperparameters self ''eps'' of None \<Rightarrow> Raised KeyError self | Some eps \<Rightarrow>
     (case hyperparameters self ''decay'' of None \<Rightarrow> Raised KeyError self | Some decay \<Rightarrow>
     (case hyperparameters self ''clip_norm'' of None \<Rightarrow> Raised KeyError self | Some clip_norm \<Rightarrow>
     (let lr = lr_scheduler self (cur_step self) cur_loss;
          c = (case cache self param_name of None \<Rightarrow> zeros_like param_grad | Some old \<Rightarrow> old);
          self1 = self\<lparr>cache := (cache self)(param_name \<mapsto> c)\<rparr>
      in (case clip clip_norm param_grad of Inl e \<Rightarrow> Raised e self1 | Inr grad \<Rightarrow>
         (case moving_average decay c (square grad) of
            Inl e \<Rightarrow> Raised e self1
          | Inr c' \<Rightarrow>
              adaptive_step (self1\<lparr>cache := (cache self1)(param_name \<mapsto> c')\<rparr>)
                param (scale lr grad) c' eps))))))"

section \<open>Adam\<close>

definition Adam_init ::
  "initializer \<Rightarrow> (scheduler \<Rightarrow> string) \<Rightarrow> real \<Rightarrow> real \<Rightarrow> real \<Rightarrow> real \<Rightarrow> hval \<Rightarrow> hval
     \<Rightarrow> adam_entry optimizer" where
  "Adam_init init str lr decay1 decay2 eps clip_norm sched =
     (let self = optimizer_init init lr sched
      in self\<lparr>cache := Map.empty,
              hyperparameters :=
           [''id'' \<mapsto> HStr ''Adam'', ''lr'' \<mapsto> HNum lr, ''eps'' \<mapsto> HNum eps,
            ''decay1'' \<mapsto> HNum decay1, ''decay2'' \<mapsto> HNum decay2, ''clip_norm'' \<mapsto> clip_norm,
            ''lr_scheduler'' \<mapsto> HStr (str (lr_scheduler self))]\<rparr>)"

text \<open>
  \<^verbatim>\<open>1 - d ** t\<close> for a hyperparameter \<open>d\<close> and the integer counter \<open>t\<close>. Python raises
  \<open>ZeroDivisionError\<close> for zero to a negative power.
\<close>

definition bias_correction :: "hval \<Rightarrow> int \<Rightarrow> error + real" where
  "bias_correction decay n =
     (case decay of
        HNone \<Rightarrow> Inl TypeError
      | HStr w \<Rightarrow> Inl TypeError
      | HNum d \<Rightarrow>
          if 0 \<le> n then Inr (1 - d ^ nat n)
          else if d = 0 then Inl ZeroDivisionError
          else Inr (1 - 1 / d ^ nat (- n)))"

definition Adam_update ::
  "adam_entry optimizer \<Rightarrow> tensor \<Rightarrow> tensor \<Rightarrow> string \<Rightarrow> real option \<Rightarrow> adam_entry result" where
  "Adam_update self param param_grad param_name cur_loss =
     (case hyperparameters self ''decay1'' of None \<Rightarrow> Raised KeyError self | Some d1 \<Rightarrow>
     (case hyperparameters self ''decay2'' of None \<Rightarrow> Raised KeyError self | Some d2 \<Rightarrow>
     (case hyperparameters self ''eps'' of None \<Rightarrow> Raised KeyError self | Some eps \<Rightarrow>
     (case hyperparameters self ''clip_norm'' of None \<Rightarrow> Raised KeyError self | Some clip_norm \<Rightarrow>
     (let lr = lr_scheduler self (cur_step self) cur_loss;
          c = (case cache self param_name of
                 None \<Rightarrow> \<lparr>entry_t = 0, entry_mean = zeros_like param_grad,
                           entry_var = zeros_like param_grad\<rparr>
               | Some old \<Rightarrow> old);
          self1 = self\<lparr>cache := (cache self)(param_name \<mapsto> c)\<rparr>
      in (case clip clip_norm param_grad of Inl e \<Rightarrow> Raised e self1 | Inr grad \<Rightarrow>
         (let n = entry_t c + 1;
              c1 = c\<lparr>entry_t := n\<rparr>;
              self2 = self1\<lparr>cache := (cache self1)(param_name \<mapsto> c1)\<rparr>
          in (case moving_average d2 (entry_var c) (square grad) of
                Inl e \<Rightarrow> Raised e self2
              | Inr var \<Rightarrow>
         (let c2 = c1\<lparr>entry_var := var\<rparr>;
              self3 = self2\<lparr>cache := (cache self2)(param_name \<mapsto> c2)\<rparr>
          in (case moving_average d1 (entry_mean c) grad of
                Inl e \<Rightarrow> Raised e self3
              | Inr mean \<Rightarrow>
         (let c3 = c2\<lparr>entry_mean := mean\<rparr>;
              self4 = self3\<lparr>cache := (cache self3)(param_name \<mapsto> c3)\<rparr>
          in (case bias_correction d2 n of Inl e \<Rightarrow> Raised e self4 | Inr b2 \<Rightarrow>
             (case bias_correction d1 n of Inl e \<Rightarrow> Raised e self4 | Inr b1 \<Rightarrow>
                adaptive_step self4 param (scale lr (div_scalar mean b1))
                  (div_scalar var b2) eps)))))))))))))"

section \<open>Calls and runs\<close>

text \<open>What a call returned, if it returned.\<close>

fun returned :: "'c result \<Rightarrow> tensor option" where
  "returned (Returned r self) = Some r"
| "returned (Raised e self) = None"


text \<open>
  The methods a caller can invoke on an instance, with their arguments, and the state a
  sequence of such calls leaves. A caller that catches an exception goes on with the
  instance as the exception left it.
\<close>

datatype 'c call =
    Update tensor tensor string "real option"
  | Step
  | Reset_step
  | Set_params "(string \<times> hval) list option" "(string \<times> 'c) list option"

type_synonym 'c update = "'c optimizer \<Rightarrow> tensor \<Rightarrow> tensor \<Rightarrow> string \<Rightarrow> real option \<Rightarrow> 'c result"

fun apply_call :: "initializer \<Rightarrow> 'c update \<Rightarrow> 'c optimizer \<Rightarrow> 'c call \<Rightarrow> 'c optimizer" where
  "apply_call init update self (Update param param_grad param_name cur_loss) =
     state_of (optimizer_call update self param param_grad param_name cur_loss)"
| "apply_call init update self Step = step self"
| "apply_call init update self Reset_step = reset_step self"
| "apply_call init update self (Set_params hparam_dict cache_dict) =
     set_params init self hparam_dict cache_dict"

fun run :: "initializer \<Rightarrow> 'c update \<Rightarrow> 'c optimizer \<Rightarrow> 'c call list \<Rightarrow> 'c optimizer" where
  "run init update self [] = self"
| "run init update self (c # cs) = run init update (apply_call init update self c) cs"

fun is_set_params :: "'c call \<Rightarrow> bool" where
  "is_set_params (Set_params hparam_dict cache_dict) = True"
| "is_set_params c = False"

text \<open>The gradients of the update calls for one parameter name, in call order.\<close>

fun grads_for :: "string \<Rightarrow> 'c call list \<Rightarrow> tensor list" where
  "grads_for name [] = []"
| "grads_for name (Update param param_grad param_name cur_loss # cs) =
     (if param_name = name then param_grad # grads_for name cs else grads_for name cs)"
| "grads_for name (c # cs) = grads_for name cs"

text \<open>The items of a dictionary argument that may be \<open>None\<close>.\<close>

definition items :: "'a list option \<Rightarrow> 'a list" where
  "items d = (case d of None \<Rightarrow> [] | Some kvs \<Rightarrow> kvs)"

text \<open>
  \<open>clip_norm\<close> as the data model has it: unset, or a number that is not negative.
\<close>

definition clip_norm_ok :: "hval option \<Rightarrow> bool" where
  "clip_norm_ok v = (case v of Some HNone \<Rightarrow> True | Some (HNum t) \<Rightarrow> 0 \<le> t | _ \<Rightarrow> False)"

text \<open>Elementwise order of two real-valued arrays of one shape.\<close>

definition elements_le :: "tensor \<Rightarrow> tensor \<Rightarrow> bool" where
  "elements_le a b =
     (shape a = shape b \<and> real_tensor a \<and> real_tensor b \<and>
      list_all2 (\<lambda>x y. x \<le> y) (the (vals a)) (the (vals b)))"

text \<open>
  The order in which a cached array may change over time: once there it stays, in its
  shape, real-valued, and no element gets smaller.
\<close>

definition cache_le :: "tensor option \<Rightarrow> tensor option \<Rightarrow> bool" where
  "cache_le a b =
     (case a of
        None \<Rightarrow> (case b of None \<Rightarrow> True | Some c' \<Rightarrow> real_tensor c')
      | Some c \<Rightarrow> (case b of None \<Rightarrow> False | Some c' \<Rightarrow> elements_le c c'))"

text \<open>
  Every element of the real-valued array \<open>c\<close> is at least 0 and at most the square of
  the element at its place in one of the arrays \<open>gs\<close>, that is, at most the largest of
  these squares.
\<close>

definition bounded_by :: "tensor \<Rightarrow> tensor list \<Rightarrow> bool" where
  "bounded_by c gs =
     (real_tensor c \<and>
      list_all (\<lambda>i. 0 \<le> the (vals c) ! i \<and>
                    list_ex (\<lambda>g. the (vals c) ! i \<le> (the (vals g) ! i) ^ 2) gs)
        [0..<prod_list (shape c)])"

section \<open>Instances as objects: \<open>copy\<close>\<close>

text \<open>
  Python shares objects by reference, and \<open>copy\<close> is about what two instances share. So
  here the objects an instance is made of live in a store, at addresses: the instance
  with its fields, its cache dictionary (from names to the addresses of what is cached),
  its hyperparameter dictionary, and one cell for each cached array or, for Adam, each
  cached entry. AdaGrad writes into the cached array where it is (\<open>+=\<close>), and Adam into
  the cached entry; SGD, RMSProp and \<open>set_params\<close> bind the name to another object.
  New objects are placed from the address \<open>free\<close> on.
\<close>

type_synonym addr = nat











text \<open>Dictionary assignment \<open>D[k] = a\<close>: a key that is there keeps its place.\<close>

fun assign :: "string \<Rightarrow> addr \<Rightarrow> (string \<times> addr) list \<Rightarrow> (string \<times> addr) list" where
  "assign k a [] = [(k, a)]"
| "assign k a ((k', a') # D) = (if k' = k then (k, a) # D else (k', a') # assign k a D)"














section \<open>Properties of the model\<close>

subsection \<open>Broadcasting\<close>

lemma broadcast_rev_same: "broadcast_rev s s = Some s"
  by (induction s) auto

lemma broadcast_shapes_same: "broadcast_shapes s s = Some s"
  by (simp add: broadcast_shapes_def broadcast_rev_same)

lemma concat_chunks: "concat (map (\<lambda>i. take n (drop (i * n) xs)) [0..<d]) = take (d * n) xs"
proof (induction d)
  case 0
  then show ?case by simp
next
  case (Suc d)
  have "take (Suc d * n) xs = take (d * n + n) xs" by (simp add: add.commute)
  also have "\<dots> = take (d * n) xs @ take n (drop (d * n) xs)" by (rule take_add)
  finally show ?case using Suc by simp
qed

lemma chunk_length:
  assumes "length xs = d * n" "i < d"
  shows "length (take n (drop (i * n) xs)) = n"
proof -
  from assms(2) have "Suc i \<le> d" by simp
  then have "Suc i * n \<le> d * n" by (rule mult_le_mono1)
  then show ?thesis using assms(1) by simp
qed

lemma expand_same: "length xs = prod_list s \<Longrightarrow> expand s s xs = xs"
proof (induction s arbitrary: xs)
  case Nil
  then show ?case by simp
next
  case (Cons d ds)
  have rows: "map (\<lambda>i. expand ds ds (take (prod_list ds) (drop (i * prod_list ds) xs))) [0..<d]
        = map (\<lambda>i. take (prod_list ds) (drop (i * prod_list ds) xs)) [0..<d]"
  proof (rule map_cong[OF refl])
    fix i assume "i \<in> set [0..<d]"
    then have "i < d" by simp
    with Cons.prems have "length (take (prod_list ds) (drop (i * prod_list ds) xs)) = prod_list ds"
      by (intro chunk_length[of xs d]) simp_all
    then show "expand ds ds (take (prod_list ds) (drop (i * prod_list ds) xs))
             = take (prod_list ds) (drop (i * prod_list ds) xs)"
      by (rule Cons.IH)
  qed
  have "expand (d # ds) (d # ds) xs
        = concat (map (\<lambda>i. expand ds ds (take (prod_list ds) (drop (i * prod_list ds) xs))) [0..<d])"
    by (simp add: Let_def)
  also have "\<dots> = concat (map (\<lambda>i. take (prod_list ds) (drop (i * prod_list ds) xs)) [0..<d])"
    by (simp only: rows)
  also have "\<dots> = take (d * prod_list ds) xs" by (rule concat_chunks)
  also have "\<dots> = xs" using Cons.prems by simp
  finally show ?case .
qed

lemma broadcast_to_same: "length xs = prod_list s \<Longrightarrow> broadcast_to s s xs = xs"
  by (simp add: broadcast_to_def expand_same)

lemma expand_set: "set (expand src dst xs) \<subseteq> set xs"
proof (induction src dst xs rule: expand.induct)
  case (1 d ds e es xs)
  have row: "set (expand ds es (take (prod_list ds) (drop (i * prod_list ds) xs))) \<subseteq> set xs"
    if "i < d" for i
  proof -
    have "set (expand ds es (take (prod_list ds) (drop (i * prod_list ds) xs)))
          \<subseteq> set (take (prod_list ds) (drop (i * prod_list ds) xs))"
      using that by (intro "1.IH"[OF refl]) simp
    also have "\<dots> \<subseteq> set (drop (i * prod_list ds) xs)" by (rule set_take_subset)
    also have "\<dots> \<subseteq> set xs" by (rule set_drop_subset)
    finally show ?thesis .
  qed
  then have "\<forall>i<d. \<forall>x\<in>set (expand ds es (take (prod_list ds) (drop (i * prod_list ds) xs))).
               x \<in> set xs"
    by blast
  then show ?case by (auto simp: Let_def)
qed simp_all

lemma expand_length:
  "list_all2 (\<lambda>d e. d = e \<or> d = 1) src dst \<Longrightarrow> length xs = prod_list src
     \<Longrightarrow> length (expand src dst xs) = prod_list dst"
proof (induction src dst arbitrary: xs rule: list_all2_induct)
  case Nil
  then show ?case by simp
next
  case (Cons d ds e es)
  let ?n = "prod_list ds"
  have row: "length (expand ds es (take ?n (drop (i * ?n) xs))) = prod_list es" if "i < d" for i
    using Cons.prems that by (intro Cons.IH chunk_length[of xs d]) simp_all
  have eq: "map (\<lambda>i. length (expand ds es (take ?n (drop (i * ?n) xs)))) [0..<d]
        = map (\<lambda>i. prod_list es) [0..<d]"
    by (rule map_cong[OF refl]) (simp add: row)
  have "length (concat (map (\<lambda>i. expand ds es (take ?n (drop (i * ?n) xs))) [0..<d]))
        = sum_list (map (\<lambda>i. length (expand ds es (take ?n (drop (i * ?n) xs)))) [0..<d])"
    by (simp add: length_concat comp_def)
  also have "\<dots> = sum_list (map (\<lambda>i. prod_list es) [0..<d])" by (simp only: eq)
  also have "\<dots> = d * prod_list es" by (simp add: sum_list_triv)
  finally have rows:
    "length (concat (map (\<lambda>i. expand ds es (take ?n (drop (i * ?n) xs))) [0..<d]))
       = d * prod_list es" .
  show ?case
  proof (cases "d = e")
    case True
    then show ?thesis using rows by (simp add: Let_def)
  next
    case False
    with Cons.hyps have "d = 1" by simp
    then show ?thesis using rows False
      by (simp add: Let_def length_concat comp_def sum_list_replicate)
  qed
qed

lemma ones_expand: "list_all2 (\<lambda>d e. d = e \<or> d = 1) (replicate (length ys) 1) ys"
  by (induction ys) simp_all

lemma broadcast_rev_left:
  "broadcast_rev ra rb = Some ra \<Longrightarrow>
     list_all2 (\<lambda>d e. d = e \<or> d = 1) (rb @ replicate (length ra - length rb) 1) ra"
proof (induction ra rb rule: broadcast_rev.induct)
  case (1 ys)
  then show ?case by simp
next
  case (2 x xs)
  then show ?case using ones_expand[of "x # xs"] by simp
next
  case (3 x xs y ys)
  then show ?case by (auto split: if_splits)
qed

lemma broadcast_rev_length: "broadcast_rev ra rb = Some ra \<Longrightarrow> length rb \<le> length ra"
  by (induction ra rb rule: broadcast_rev.induct) (auto split: if_splits)

lemma broadcast_to_into:
  assumes "broadcast_shapes s1 s2 = Some s1" "length ys = prod_list s2"
  shows "length (broadcast_to s2 s1 ys) = prod_list s1"
proof -
  from assms(1) have rv: "broadcast_rev (rev s1) (rev s2) = Some (rev s1)"
    by (auto simp: broadcast_shapes_def)
  from broadcast_rev_left[OF rv]
  have "list_all2 (\<lambda>d e. d = e \<or> d = 1)
          (rev (rev s2 @ replicate (length s1 - length s2) 1)) (rev (rev s1))"
    by (subst list_all2_rev) simp
  then have "list_all2 (\<lambda>d e. d = e \<or> d = 1) (replicate (length s1 - length s2) 1 @ s2) s1"
    by simp
  then show ?thesis unfolding broadcast_to_def
    by (rule expand_length) (simp add: assms(2))
qed

lemma broadcast_to_set: "set (broadcast_to src dst xs) \<subseteq> set xs"
  by (simp add: broadcast_to_def expand_set)

subsection \<open>Arrays of one shape\<close>

lemma real_tensorD:
  "real_tensor a \<Longrightarrow> \<exists>xs. vals a = Some xs \<and> length xs = prod_list (shape a)"
  by (auto simp: real_tensor_def split: option.splits)

lemma real_tensor_zeros_like: "real_tensor (zeros_like a)"
  by (simp add: real_tensor_def zeros_like_def)

lemma elementwise_same:
  assumes "shape a = shape b" "vals a = Some xs" "vals b = Some ys"
    "length xs = prod_list (shape a)" "length ys = prod_list (shape a)"
  shows "elementwise f a b = Some \<lparr>shape = shape a, vals = Some (map2 f xs ys)\<rparr>"
  using assms by (simp add: elementwise_def broadcast_shapes_same both_def broadcast_to_same)











lemma zeros_like_shape: "shape a = shape b \<Longrightarrow> zeros_like a = zeros_like b"
  by (simp add: zeros_like_def)








subsection \<open>set\_params\<close>

lemma set_hparams_hyperparameters:
  "hyperparameters (set_hparams init self kvs) k =
     (case hyperparameters self k of
        None \<Rightarrow> None
      | Some old \<Rightarrow> (case map_of (rev kvs) k of None \<Rightarrow> Some old | Some v \<Rightarrow> Some v))"
proof (induction kvs arbitrary: self)
  case Nil
  then show ?case by (simp split: option.splits)
next
  case (Cons kv kvs)
  obtain k0 v0 where kv: "kv = (k0, v0)" by (cases kv)
  show ?case
    by (simp add: kv Cons.IH Let_def map_add_def split: option.splits)
qed

lemma set_hparams_cache: "cache (set_hparams init self kvs) = cache self"
  by (induction kvs arbitrary: self) (auto simp: Let_def split: option.splits)

lemma set_hparams_cur_step: "cur_step (set_hparams init self kvs) = cur_step self"
  by (induction kvs arbitrary: self) (auto simp: Let_def split: option.splits)

lemma set_cache_cache:
  "cache (set_cache self kvs) k =
     (case cache self k of
        None \<Rightarrow> None
      | Some old \<Rightarrow> (case map_of (rev kvs) k of None \<Rightarrow> Some old | Some v \<Rightarrow> Some v))"
proof (induction kvs arbitrary: self)
  case Nil
  then show ?case by (simp split: option.splits)
next
  case (Cons kv kvs)
  obtain k0 v0 where kv: "kv = (k0, v0)" by (cases kv)
  show ?case
    by (simp add: kv Cons.IH map_add_def split: option.splits)
qed

lemma set_cache_hyperparameters: "hyperparameters (set_cache self kvs) = hyperparameters self"
  by (induction kvs arbitrary: self) (auto split: option.splits)

lemma set_cache_cur_step: "cur_step (set_cache self kvs) = cur_step self"
  by (induction kvs arbitrary: self) (auto split: option.splits)

lemma set_cache_lr_scheduler: "lr_scheduler (set_cache self kvs) = lr_scheduler self"
  by (induction kvs arbitrary: self) (auto split: option.splits)

lemma set_params_hyperparameters:
  "hyperparameters (set_params init self hparam_dict cache_dict) k =
     (case hyperparameters self k of
        None \<Rightarrow> None
      | Some old \<Rightarrow>
          (case map_of (rev (items hparam_dict)) k of None \<Rightarrow> Some old | Some v \<Rightarrow> Some v))"
  by (cases hparam_dict; cases cache_dict)
     (simp_all add: set_params_def items_def set_hparams_hyperparameters
        set_cache_hyperparameters split: option.splits)

lemma set_params_cache:
  "cache (set_params init self hparam_dict cache_dict) k =
     (case cache self k of
        None \<Rightarrow> None
      | Some old \<Rightarrow>
          (case map_of (rev (items cache_dict)) k of None \<Rightarrow> Some old | Some v \<Rightarrow> Some v))"
  by (cases hparam_dict; cases cache_dict)
     (simp_all add: set_params_def items_def set_cache_cache set_hparams_cache
        split: option.splits)

lemma set_params_cur_step:
  "cur_step (set_params init self hparam_dict cache_dict) = cur_step self"
  by (cases hparam_dict; cases cache_dict)
     (simp_all add: set_params_def set_cache_cur_step set_hparams_cur_step)

subsection \<open>Clipping\<close>

lemma clip_shape: "clip cn g = Inr g' \<Longrightarrow> shape g' = shape g"
  by (auto simp: clip_def div_scalar_def times_scalar_def split: hval.splits option.splits if_splits)

lemma sum_squares_scaled:
  "sum_list (map (\<lambda>x. x ^ 2) (map (\<lambda>x. x / n) (map (\<lambda>x. x * t) xs)))
     = (t / n) ^ 2 * sum_list (map (\<lambda>x. x ^ 2) xs)" for n t :: real
  by (induction xs) (simp_all add: power_mult_distrib power_divide algebra_simps)

lemma norm_clipped:
  assumes "vals g = Some xs" "norm_t g = Some n" "0 \<le> t" "t < n"
  shows "norm_t (div_scalar (times_scalar g t) n) = Some t"
proof -
  from assms have n: "n = sqrt (sum_list (map (\<lambda>x. x ^ 2) xs))" and pos: "0 < n"
    by (auto simp: norm_t_def)
  have "0 \<le> sum_list (map (\<lambda>x. x ^ 2) xs)" by (rule sum_list_nonneg) auto
  then have sq: "sum_list (map (\<lambda>x. x ^ 2) xs) = n ^ 2" by (simp add: n)
  have t: "sqrt ((t / n) ^ 2 * n ^ 2) = t"
    using pos assms(3) by (simp add: real_sqrt_mult)
  have v: "vals (div_scalar (times_scalar g t) n)
           = Some (map (\<lambda>x. x / n) (map (\<lambda>x. x * t) xs))"
    using pos assms(1) by (simp add: div_scalar_def times_scalar_def)
  show ?thesis unfolding norm_t_def v option.map sum_squares_scaled sq t ..
qed

subsection \<open>An update with clipping is the update, without clipping, of the clipped gradient\<close>

lemma clip_HNone: "clip HNone g = Inr g"
  by (simp add: clip_def)

lemma SGD_update_uses_clip:
  assumes "hyperparameters self ''clip_norm'' = Some cn" "clip cn g = Inr g'"
  shows "returned (SGD_update self p g n l)
         = returned (SGD_update
             (self\<lparr>hyperparameters := (hyperparameters self)(''clip_norm'' \<mapsto> HNone)\<rparr>) p g' n l)"
    and "cache (state_of (SGD_update self p g n l))
         = cache (state_of (SGD_update
             (self\<lparr>hyperparameters := (hyperparameters self)(''clip_norm'' \<mapsto> HNone)\<rparr>) p g' n l))"
  using assms zeros_like_shape[OF clip_shape[OF assms(2)]]
  by (auto simp: SGD_update_def clip_HNone Let_def split: option.splits hval.splits)

lemma adaptive_step_state:
  "returned (adaptive_step s1 p num v eps) = returned (adaptive_step s2 p num v eps)"
  "cache (state_of (adaptive_step s1 p num v eps)) = cache s1"
  by (auto simp: adaptive_step_def split: option.splits hval.splits)

lemma AdaGrad_update_uses_clip:
  assumes "hyperparameters self ''clip_norm'' = Some cn" "clip cn g = Inr g'"
  shows "returned (AdaGrad_update self p g n l)
         = returned (AdaGrad_update
             (self\<lparr>hyperparameters := (hyperparameters self)(''clip_norm'' \<mapsto> HNone)\<rparr>) p g' n l)"
    and "cache (state_of (AdaGrad_update self p g n l))
         = cache (state_of (AdaGrad_update
             (self\<lparr>hyperparameters := (hyperparameters self)(''clip_norm'' \<mapsto> HNone)\<rparr>) p g' n l))"
  using assms zeros_like_shape[OF clip_shape[OF assms(2)]]
  by (auto simp: AdaGrad_update_def clip_HNone Let_def adaptive_step_state(2)
      intro: adaptive_step_state(1) split: option.splits)

lemma RMSProp_update_uses_clip:
  assumes "hyperparameters self ''clip_norm'' = Some cn" "clip cn g = Inr g'"
  shows "returned (RMSProp_update self p g n l)
         = returned (RMSProp_update
             (self\<lparr>hyperparameters := (hyperparameters self)(''clip_norm'' \<mapsto> HNone)\<rparr>) p g' n l)"
    and "cache (state_of (RMSProp_update self p g n l))
         = cache (state_of (RMSProp_update
             (self\<lparr>hyperparameters := (hyperparameters self)(''clip_norm'' \<mapsto> HNone)\<rparr>) p g' n l))"
  using assms zeros_like_shape[OF clip_shape[OF assms(2)]]
  by (auto simp: RMSProp_update_def clip_HNone Let_def adaptive_step_state(2)
      intro: adaptive_step_state(1) split: option.splits sum.splits)

lemma Adam_update_uses_clip:
  assumes "hyperparameters self ''clip_norm'' = Some cn" "clip cn g = Inr g'"
  shows "returned (Adam_update self p g n l)
         = returned (Adam_update
             (self\<lparr>hyperparameters := (hyperparameters self)(''clip_norm'' \<mapsto> HNone)\<rparr>) p g' n l)"
    and "cache (state_of (Adam_update self p g n l))
         = cache (state_of (Adam_update
             (self\<lparr>hyperparameters := (hyperparameters self)(''clip_norm'' \<mapsto> HNone)\<rparr>) p g' n l))"
  using assms zeros_like_shape[OF clip_shape[OF assms(2)]]
  by (auto simp: Adam_update_def clip_HNone Let_def adaptive_step_state(2)
      intro: adaptive_step_state(1) split: option.splits sum.splits)

subsection \<open>Shapes of results\<close>


lemma shape_square: "shape (square a) = shape a"
  by (simp add: square_def)

lemma shape_zeros_like: "shape (zeros_like a) = shape a"
  by (simp add: zeros_like_def)







lemma div_t_None: "broadcast_shapes (shape a) (shape b) = None \<Longrightarrow> div_t a b = None"
  by (simp add: div_t_def)



lemma clip_norm_okD: "clip_norm_ok v \<Longrightarrow> \<exists>cn. v = Some cn \<and> clip_norm_ok (Some cn)"
  by (cases v) (auto simp: clip_norm_ok_def)


subsection \<open>Shapes that cannot be broadcast raise ValueError\<close>













subsection \<open>What an update leaves alone\<close>

lemma adaptive_step_state_of: "state_of (adaptive_step self p num v eps) = self"
  by (auto simp: adaptive_step_def split: option.splits hval.splits)

lemma SGD_update_frame:
  "hyperparameters (state_of (SGD_update self p g n l)) = hyperparameters self"
  "cur_step (state_of (SGD_update self p g n l)) = cur_step self"
  "lr_scheduler (state_of (SGD_update self p g n l)) = lr_scheduler self"
  "m \<noteq> n \<Longrightarrow> cache (state_of (SGD_update self p g n l)) m = cache self m"
  by (auto simp: SGD_update_def Let_def split: option.splits hval.splits sum.splits)

lemma AdaGrad_update_frame:
  "hyperparameters (state_of (AdaGrad_update self p g n l)) = hyperparameters self"
  "cur_step (state_of (AdaGrad_update self p g n l)) = cur_step self"
  "lr_scheduler (state_of (AdaGrad_update self p g n l)) = lr_scheduler self"
  "m \<noteq> n \<Longrightarrow> cache (state_of (AdaGrad_update self p g n l)) m = cache self m"
  by (auto simp: AdaGrad_update_def Let_def adaptive_step_state_of
      split: option.splits hval.splits sum.splits)

lemma RMSProp_update_frame:
  "hyperparameters (state_of (RMSProp_update self p g n l)) = hyperparameters self"
  "cur_step (state_of (RMSProp_update self p g n l)) = cur_step self"
  "lr_scheduler (state_of (RMSProp_update self p g n l)) = lr_scheduler self"
  "m \<noteq> n \<Longrightarrow> cache (state_of (RMSProp_update self p g n l)) m = cache self m"
  by (auto simp: RMSProp_update_def Let_def adaptive_step_state_of
      split: option.splits hval.splits sum.splits)

lemma Adam_update_frame:
  "hyperparameters (state_of (Adam_update self p g n l)) = hyperparameters self"
  "cur_step (state_of (Adam_update self p g n l)) = cur_step self"
  "lr_scheduler (state_of (Adam_update self p g n l)) = lr_scheduler self"
  "m \<noteq> n \<Longrightarrow> cache (state_of (Adam_update self p g n l)) m = cache self m"
  by (auto simp: Adam_update_def Let_def adaptive_step_state_of
      split: option.splits hval.splits sum.splits)

subsection \<open>Adam's counter\<close>

lemma Adam_update_counter:
  assumes "hyperparameters self ''decay1'' = Some v1" "hyperparameters self ''decay2'' = Some v2"
    "hyperparameters self ''eps'' = Some v3" "hyperparameters self ''clip_norm'' = Some cn"
    "\<forall>w. cn \<noteq> HStr w"
  shows "map_option entry_t (cache (state_of (Adam_update self p g n l)) n)
         = Some ((case cache self n of None \<Rightarrow> 0 | Some old \<Rightarrow> entry_t old) + 1)"
proof -
  from assms(5) have "\<exists>g'. clip cn g = Inr g'"
    by (cases cn) (auto simp: clip_def split: option.splits)
  then obtain g' where "clip cn g = Inr g'" ..
  then show ?thesis using assms(1-4)
    by (auto simp: Adam_update_def Let_def adaptive_step_state_of
        split: option.splits sum.splits)
qed

lemma Adam_run_counter:
  assumes "hyperparameters self ''decay1'' = Some v1" "hyperparameters self ''decay2'' = Some v2"
    "hyperparameters self ''eps'' = Some v3" "hyperparameters self ''clip_norm'' = Some cn"
    "\<forall>w. cn \<noteq> HStr w" "\<forall>c\<in>set calls. \<not> is_set_params c"
  shows "map_option entry_t (cache (run init Adam_update self calls) name) =
         (if grads_for name calls = [] then map_option entry_t (cache self name)
          else Some ((case cache self name of None \<Rightarrow> 0 | Some old \<Rightarrow> entry_t old)
                     + int (length (grads_for name calls))))"
  using assms
proof (induction calls arbitrary: self)
  case Nil
  then show ?case by simp
next
  case (Cons c calls)
  let ?s = "apply_call init Adam_update self c"
  have hp: "hyperparameters ?s = hyperparameters self"
    using Cons.prems(6)
    by (cases c) (simp_all add: optimizer_call_def Adam_update_frame step_def reset_step_def)
  have IH: "map_option entry_t (cache (run init Adam_update ?s calls) name) =
         (if grads_for name calls = [] then map_option entry_t (cache ?s name)
          else Some ((case cache ?s name of None \<Rightarrow> 0 | Some old \<Rightarrow> entry_t old)
                     + int (length (grads_for name calls))))"
    using Cons.prems by (intro Cons.IH) (simp_all add: hp)
  show ?case
  proof (cases c)
    case (Update p g n l)
    show ?thesis
    proof (cases "n = name")
      case True
      have "map_option entry_t (cache ?s name)
            = Some ((case cache self name of None \<Rightarrow> 0 | Some old \<Rightarrow> entry_t old) + 1)"
        using Adam_update_counter[OF Cons.prems(1-5), of p g name l]
        by (simp add: Update True optimizer_call_def)
      then show ?thesis using IH
        by (auto simp: Update True split: option.splits)
    next
      case False
      then have "cache ?s name = cache self name"
        by (simp add: Update optimizer_call_def Adam_update_frame)
      then show ?thesis using IH False by (simp add: Update)
    qed
  next
    case Step
    then show ?thesis using IH by (simp add: step_def)
  next
    case Reset_step
    then show ?thesis using IH by (simp add: reset_step_def)
  next
    case (Set_params h cd)
    then show ?thesis using Cons.prems(6) by simp
  qed
qed

subsection \<open>Real-valued arrays stay real-valued\<close>

lemma clip_real:
  assumes "clip_norm_ok (Some cn)" "real_tensor g"
  shows "\<exists>g'. clip cn g = Inr g' \<and> real_tensor g' \<and> shape g' = shape g"
proof (cases cn)
  case HNone
  then show ?thesis using assms by (simp add: clip_def)
next
  case (HNum t)
  with assms(1) have t: "0 \<le> t" by (simp add: clip_norm_ok_def)
  from real_tensorD[OF assms(2)] obtain xs
    where xs: "vals g = Some xs" "length xs = prod_list (shape g)" by blast
  then obtain n where n: "norm_t g = Some n" by (simp add: norm_t_def)
  show ?thesis
  proof (cases "t < n")
    case True
    with t have "n \<noteq> 0" by simp
    then show ?thesis using True n xs HNum
      by (simp add: clip_def div_scalar_def times_scalar_def real_tensor_def)
  next
    case False
    then show ?thesis using n HNum assms(2) by (simp add: clip_def)
  qed
next
  case (HStr w)
  then show ?thesis using assms(1) by (simp add: clip_norm_ok_def)
qed

lemma real_tensor_square: "real_tensor a \<Longrightarrow> real_tensor (square a)"
  by (auto simp: real_tensor_def square_def split: option.splits)

subsection \<open>AdaGrad's sum only grows\<close>

lemma elements_le_refl: "real_tensor c \<Longrightarrow> elements_le c c"
  by (simp add: elements_le_def list_all2_refl)

lemma elements_le_trans: "elements_le a b \<Longrightarrow> elements_le b c \<Longrightarrow> elements_le a c"
  unfolding elements_le_def
  by (auto elim: list_all2_trans[rotated])

lemma cache_le_refl: "(case a of None \<Rightarrow> True | Some c \<Rightarrow> real_tensor c) \<Longrightarrow> cache_le a a"
  by (auto simp: cache_le_def elements_le_refl split: option.splits)

lemma cache_le_trans: "cache_le a b \<Longrightarrow> cache_le b c \<Longrightarrow> cache_le a c"
  by (auto simp: cache_le_def elements_le_def split: option.splits
      elim: list_all2_trans[rotated])

lemma cache_le_real: "cache_le a b \<Longrightarrow> (case b of None \<Rightarrow> True | Some c \<Rightarrow> real_tensor c)"
  by (auto simp: cache_le_def elements_le_def split: option.splits)

lemma list_all2_add_nonneg:
  "length zs = length xs \<Longrightarrow> \<forall>z\<in>set zs. 0 \<le> z
     \<Longrightarrow> list_all2 (\<lambda>x y. x \<le> y) xs (map2 (\<lambda>x y. x + y) xs zs)" for xs :: "real list"
  by (auto simp: list_all2_conv_all_nth)

lemma iadd_square_grows:
  assumes "real_tensor c" "real_tensor g" "iadd_t c (square g) = Some c'"
  shows "elements_le c c'"
proof -
  from real_tensorD[OF assms(1)] obtain xs
    where xs: "vals c = Some xs" "length xs = prod_list (shape c)" by blast
  from real_tensorD[OF assms(2)] obtain ys
    where ys: "vals g = Some ys" "length ys = prod_list (shape g)" by blast
  from assms(3) have b: "broadcast_shapes (shape c) (shape g) = Some (shape c)"
    by (auto simp: iadd_t_def shape_square split: option.splits if_splits)
  let ?zs = "broadcast_to (shape g) (shape c) (map (\<lambda>x. x ^ 2) ys)"
  have len: "length ?zs = length xs"
    using broadcast_to_into[OF b, of "map (\<lambda>x. x ^ 2) ys"] ys xs by simp
  have "set ?zs \<subseteq> set (map (\<lambda>x. x ^ 2) ys)" by (rule broadcast_to_set)
  then have nonneg: "\<forall>z\<in>set ?zs. 0 \<le> z" by auto
  have c': "c' = \<lparr>shape = shape c, vals = Some (map2 (\<lambda>x y. x + y) xs ?zs)\<rparr>"
    using assms(3) b xs ys
    by (simp add: iadd_t_def add_t_def elementwise_def both_def square_def broadcast_to_same)
  show ?thesis
    using list_all2_add_nonneg[OF len nonneg] xs len
    by (simp add: elements_le_def c' real_tensor_def)
qed

lemma AdaGrad_update_grows:
  assumes "clip_norm_ok (hyperparameters self ''clip_norm'')" "real_tensor g"
    "case cache self n of None \<Rightarrow> True | Some c \<Rightarrow> real_tensor c"
  shows "cache_le (cache self n) (cache (state_of (AdaGrad_update self p g n l)) n)"
proof (cases "hyperparameters self ''eps''")
  case None
  then show ?thesis using assms(3) by (simp add: AdaGrad_update_def cache_le_refl)
next
  case (Some eps)
  from clip_norm_okD[OF assms(1)] obtain cn
    where cn: "hyperparameters self ''clip_norm'' = Some cn" "clip_norm_ok (Some cn)" by blast
  from clip_real[OF cn(2) assms(2)] obtain g'
    where g': "clip cn g = Inr g'" "real_tensor g'" by blast
  let ?c = "case cache self n of None \<Rightarrow> zeros_like g | Some old \<Rightarrow> old"
  have c: "real_tensor ?c"
    using assms(3) by (auto simp: real_tensor_zeros_like split: option.splits)
  have start: "cache_le (cache self n) (Some ?c)"
    using c by (auto simp: cache_le_def elements_le_refl split: option.splits)
  show ?thesis
  proof (cases "iadd_t ?c (square g')")
    case None
    then show ?thesis using Some cn g' start by (simp add: AdaGrad_update_def)
  next
    case (Some c')
    from iadd_square_grows[OF c g'(2) Some] have "cache_le (Some ?c) (Some c')"
      by (simp add: cache_le_def)
    with start have "cache_le (cache self n) (Some c')" by (rule cache_le_trans)
    then show ?thesis using \<open>hyperparameters self ''eps'' = Some eps\<close> cn g' Some
      by (simp add: AdaGrad_update_def adaptive_step_state_of)
  qed
qed

lemma AdaGrad_run_grows:
  assumes "clip_norm_ok (hyperparameters self ''clip_norm'')"
    "\<forall>c\<in>set calls. \<not> is_set_params c"
    "\<forall>g\<in>set (grads_for name calls). real_tensor g"
    "case cache self name of None \<Rightarrow> True | Some c \<Rightarrow> real_tensor c"
  shows "cache_le (cache self name) (cache (run init AdaGrad_update self calls) name)"
  using assms
proof (induction calls arbitrary: self)
  case Nil
  then show ?case by (simp add: cache_le_refl)
next
  case (Cons c calls)
  let ?s = "apply_call init AdaGrad_update self c"
  have hp: "hyperparameters ?s = hyperparameters self"
    using Cons.prems(2)
    by (cases c) (simp_all add: optimizer_call_def AdaGrad_update_frame step_def reset_step_def)
  have one: "cache_le (cache self name) (cache ?s name)"
  proof (cases c)
    case (Update p g n l)
    show ?thesis
    proof (cases "n = name")
      case True
      then show ?thesis
        using AdaGrad_update_grows[OF Cons.prems(1) _ Cons.prems(4), of g p l] Cons.prems(3)
        by (simp add: Update optimizer_call_def)
    next
      case False
      then show ?thesis using Cons.prems(4)
        by (simp add: Update optimizer_call_def AdaGrad_update_frame cache_le_refl)
    qed
  next
    case Step
    then show ?thesis using Cons.prems(4) by (simp add: step_def cache_le_refl)
  next
    case Reset_step
    then show ?thesis using Cons.prems(4) by (simp add: reset_step_def cache_le_refl)
  next
    case (Set_params h cd)
    then show ?thesis using Cons.prems(2) by simp
  qed
  have rest: "\<forall>g\<in>set (grads_for name calls). real_tensor g"
    using Cons.prems(3) by (cases c) (auto split: if_splits)
  have "cache_le (cache ?s name) (cache (run init AdaGrad_update ?s calls) name)"
    using Cons.prems(1,2) rest cache_le_real[OF one] by (intro Cons.IH) (simp_all add: hp)
  with one show ?case by (auto intro: cache_le_trans)
qed

subsection \<open>RMSProp's average stays between zero and the largest squared gradient\<close>

lemma bounded_by_iff:
  "bounded_by c gs \<longleftrightarrow>
     real_tensor c \<and>
     (\<forall>i<prod_list (shape c). 0 \<le> the (vals c) ! i \<and>
        (\<exists>g\<in>set gs. the (vals c) ! i \<le> (the (vals g) ! i) ^ 2))"
  by (auto simp: bounded_by_def list_all_iff list_ex_iff)

lemma bounded_by_mono: "bounded_by c gs \<Longrightarrow> set gs \<subseteq> set gs' \<Longrightarrow> bounded_by c gs'"
  unfolding bounded_by_iff by blast

lemma convex_bound:
  fixes d x y M :: real
  assumes "0 \<le> d" "d \<le> 1" "x \<le> M" "y \<le> M"
  shows "d * x + (1 - d) * y \<le> M"
proof -
  have "d * x \<le> d * M" using assms(1,3) by (rule mult_left_mono[rotated])
  moreover have "(1 - d) * y \<le> (1 - d) * M" using assms(2,4) by (intro mult_left_mono) simp_all
  ultimately have "d * x + (1 - d) * y \<le> d * M + (1 - d) * M" by (rule add_mono)
  then show ?thesis by (simp add: algebra_simps)
qed

lemma scaled_square_le:
  fixes x t n :: real
  assumes "0 \<le> t" "t < n"
  shows "(x * t / n) ^ 2 \<le> x ^ 2"
proof -
  have "0 \<le> t / n" "t / n \<le> 1" using assms by simp_all
  then have "(t / n) ^ 2 \<le> 1" by (simp add: power_le_one)
  then have "x ^ 2 * (t / n) ^ 2 \<le> x ^ 2 * 1" by (intro mult_left_mono) simp_all
  then show ?thesis by (simp add: power_mult_distrib power_divide)
qed

lemma clip_square_le:
  assumes "clip_norm_ok (Some cn)" "vals g = Some ys" "clip cn g = Inr g'"
  shows "\<exists>zs. vals g' = Some zs \<and> length zs = length ys \<and>
           (\<forall>i<length ys. (zs ! i) ^ 2 \<le> (ys ! i) ^ 2)"
proof (cases cn)
  case HNone
  then show ?thesis using assms by (simp add: clip_def)
next
  case (HNum t)
  with assms(1) have t: "0 \<le> t" by (simp add: clip_norm_ok_def)
  from assms(2) obtain n where n: "norm_t g = Some n" by (simp add: norm_t_def)
  show ?thesis
  proof (cases "t < n")
    case True
    with t have "n \<noteq> 0" by simp
    then have "vals g' = Some (map (\<lambda>x. x * t / n) ys)"
      using assms(2,3) True n HNum
      by (auto simp: clip_def div_scalar_def times_scalar_def)
    then show ?thesis using scaled_square_le[OF t True] by simp
  next
    case False
    then show ?thesis using n HNum assms by (simp add: clip_def)
  qed
next
  case (HStr w)
  then show ?thesis using assms(1) by (simp add: clip_norm_ok_def)
qed

lemma moving_average_same:
  assumes "shape old = shape x" "vals old = Some xs" "vals x = Some ys"
    "length xs = prod_list (shape old)" "length ys = prod_list (shape old)"
  shows "moving_average (HNum d) old x =
           Inr \<lparr>shape = shape old,
                vals = Some (map2 (\<lambda>u v. u + v) (map (\<lambda>u. d * u) xs) (map (\<lambda>v. (1 - d) * v) ys))\<rparr>"
  using assms
  by (simp add: moving_average_def add_t_def scale_def
      elementwise_same[where xs = "map (\<lambda>u. d * u) xs" and ys = "map (\<lambda>v. (1 - d) * v) ys"])

lemma RMSProp_average_bounded:
  assumes d: "0 \<le> d" "d \<le> 1"
    and cn: "clip_norm_ok (Some cn)"
    and g: "real_tensor g"
    and g': "clip cn g = Inr g'"
    and c0: "real_tensor c0" "shape c0 = shape g"
    and old: "\<forall>i<prod_list (shape g). 0 \<le> the (vals c0) ! i \<and>
               (\<exists>h\<in>set (gs @ [g]). the (vals c0) ! i \<le> (the (vals h) ! i) ^ 2)"
  shows "\<exists>c'. moving_average (HNum d) c0 (square g') = Inr c' \<and> shape c' = shape g \<and>
              bounded_by c' (gs @ [g])"
proof -
  from real_tensorD[OF g] obtain ys
    where ys: "vals g = Some ys" "length ys = prod_list (shape g)" by blast
  from real_tensorD[OF c0(1)] c0(2) obtain xs
    where xs: "vals c0 = Some xs" "length xs = prod_list (shape g)" by auto
  from clip_square_le[OF cn ys(1) g'] obtain zs
    where zs: "vals g' = Some zs" "length zs = length ys"
      "\<forall>i<length ys. (zs ! i) ^ 2 \<le> (ys ! i) ^ 2" by blast
  have sg: "shape g' = shape g" using g' by (rule clip_shape)
  let ?c = "\<lparr>shape = shape c0,
             vals = Some (map2 (\<lambda>u v. u + v) (map (\<lambda>u. d * u) xs)
                            (map (\<lambda>v. (1 - d) * v) (map (\<lambda>x. x ^ 2) zs)))\<rparr>"
  have ma: "moving_average (HNum d) c0 (square g') = Inr ?c"
    using xs zs ys c0(2) sg
    by (intro moving_average_same) (simp_all add: square_def)
  have el: "the (vals ?c) ! i = d * xs ! i + (1 - d) * (zs ! i) ^ 2"
    if "i < prod_list (shape g)" for i
    using that xs zs ys by simp
  have bound: "0 \<le> the (vals ?c) ! i \<and>
      (\<exists>h\<in>set (gs @ [g]). the (vals ?c) ! i \<le> (the (vals h) ! i) ^ 2)"
    if i: "i < prod_list (shape g)" for i
  proof
    from old i xs have x0: "0 \<le> xs ! i" by auto
    have "0 \<le> d * xs ! i" using d(1) x0 by simp
    moreover have "0 \<le> (1 - d) * (zs ! i) ^ 2" using d(2) by simp
    ultimately show "0 \<le> the (vals ?c) ! i" using el[OF i] by simp
  next
    from old i xs obtain h where h: "h \<in> set (gs @ [g])" "xs ! i \<le> (the (vals h) ! i) ^ 2"
      by auto
    from zs(3) i ys have z: "(zs ! i) ^ 2 \<le> (ys ! i) ^ 2" by simp
    show "\<exists>h\<in>set (gs @ [g]). the (vals ?c) ! i \<le> (the (vals h) ! i) ^ 2"
    proof (cases "(ys ! i) ^ 2 \<le> (the (vals h) ! i) ^ 2")
      case True
      with z have "(zs ! i) ^ 2 \<le> (the (vals h) ! i) ^ 2" by simp
      from convex_bound[OF d h(2) this] show ?thesis using h(1) el[OF i] by auto
    next
      case False
      with h(2) have "xs ! i \<le> (ys ! i) ^ 2" by simp
      from convex_bound[OF d this z] show ?thesis using el[OF i] ys by auto
    qed
  qed
  have "bounded_by ?c (gs @ [g])"
    unfolding bounded_by_iff using bound xs zs ys c0(2)
    by (simp add: real_tensor_def)
  with ma c0(2) show ?thesis by simp
qed

lemma RMSProp_update_bounded:
  assumes "hyperparameters self ''decay'' = Some (HNum d)" "0 \<le> d" "d \<le> 1"
    "clip_norm_ok (hyperparameters self ''clip_norm'')"
    "real_tensor g" "shape g = sh"
    "case cache self n of None \<Rightarrow> True | Some c \<Rightarrow> shape c = sh \<and> bounded_by c gs"
  shows "case cache (state_of (RMSProp_update self p g n l)) n of
           None \<Rightarrow> hyperparameters self ''eps'' = None
         | Some c \<Rightarrow> shape c = sh \<and> bounded_by c (gs @ [g])"
proof (cases "hyperparameters self ''eps''")
  case None
  then show ?thesis using assms(7)
    by (auto simp: RMSProp_update_def split: option.splits intro: bounded_by_mono)
next
  case (Some eps)
  from clip_norm_okD[OF assms(4)] obtain cn
    where cn: "hyperparameters self ''clip_norm'' = Some cn" "clip_norm_ok (Some cn)" by blast
  from clip_real[OF cn(2) assms(5)] obtain g' where g': "clip cn g = Inr g'" by blast
  let ?c = "case cache self n of None \<Rightarrow> zeros_like g | Some old \<Rightarrow> old"
  have c: "real_tensor ?c" "shape ?c = shape g"
    using assms(6,7)
    by (auto simp: real_tensor_zeros_like shape_zeros_like bounded_by_iff split: option.splits)
  have old: "\<forall>i<prod_list (shape g). 0 \<le> the (vals ?c) ! i \<and>
               (\<exists>h\<in>set (gs @ [g]). the (vals ?c) ! i \<le> (the (vals h) ! i) ^ 2)"
  proof (cases "cache self n")
    case None
    then show ?thesis by (auto simp: zeros_like_def)
  next
    case (Some c1)
    with assms(6,7) show ?thesis by (auto simp: bounded_by_iff)
  qed
  from RMSProp_average_bounded[OF assms(2,3) cn(2) assms(5) g' c old] obtain c'
    where c': "moving_average (HNum d) ?c (square g') = Inr c'" "shape c' = shape g"
      "bounded_by c' (gs @ [g])" by blast
  then show ?thesis using Some cn g' assms(1,6)
    by (simp add: RMSProp_update_def adaptive_step_state_of)
qed

lemma RMSProp_run_bounded:
  assumes "hyperparameters self ''decay'' = Some (HNum d)" "0 \<le> d" "d \<le> 1"
    "clip_norm_ok (hyperparameters self ''clip_norm'')"
    "\<forall>c\<in>set calls. \<not> is_set_params c"
    "\<forall>g\<in>set (grads_for name calls). real_tensor g \<and> shape g = sh"
    "case cache self name of None \<Rightarrow> True | Some c \<Rightarrow> shape c = sh \<and> bounded_by c gs"
  shows "case cache (run init RMSProp_update self calls) name of
           None \<Rightarrow> cache self name = None \<and>
                   (hyperparameters self ''eps'' = None \<or> grads_for name calls = [])
         | Some c \<Rightarrow> shape c = sh \<and> bounded_by c (gs @ grads_for name calls)"
  using assms
proof (induction calls arbitrary: self gs)
  case Nil
  then show ?case by (auto split: option.splits)
next
  case (Cons c calls)
  let ?s = "apply_call init RMSProp_update self c"
  have hp: "hyperparameters ?s = hyperparameters self"
    using Cons.prems(5)
    by (cases c) (simp_all add: optimizer_call_def RMSProp_update_frame step_def reset_step_def)
  have rest: "\<forall>g\<in>set (grads_for name calls). real_tensor g \<and> shape g = sh"
    using Cons.prems(6) by (cases c) (auto split: if_splits)
  show ?case
  proof (cases "\<exists>p g l. c = Update p g name l")
    case True
    then obtain p g l where c: "c = Update p g name l" by blast
    with Cons.prems(6) have g: "real_tensor g" "shape g = sh" by simp_all
    have one: "case cache ?s name of
           None \<Rightarrow> hyperparameters self ''eps'' = None
         | Some c \<Rightarrow> shape c = sh \<and> bounded_by c (gs @ [g])"
      using RMSProp_update_bounded[OF Cons.prems(1-4) g Cons.prems(7), of p l]
      by (simp add: c optimizer_call_def)
    then have inv: "case cache ?s name of None \<Rightarrow> True
         | Some c \<Rightarrow> shape c = sh \<and> bounded_by c (gs @ [g])"
      by (auto split: option.splits)
    have none: "cache self name = None" if "cache ?s name = None"
    proof (rule ccontr)
      assume "cache self name \<noteq> None"
      then show False using that
        by (auto simp: c optimizer_call_def RMSProp_update_def Let_def adaptive_step_state_of
            split: option.splits sum.splits)
    qed
    have "case cache (run init RMSProp_update ?s calls) name of
           None \<Rightarrow> cache ?s name = None \<and>
                   (hyperparameters ?s ''eps'' = None \<or> grads_for name calls = [])
         | Some c \<Rightarrow> shape c = sh \<and> bounded_by c ((gs @ [g]) @ grads_for name calls)"
      using Cons.prems(1-5) rest inv by (intro Cons.IH) (simp_all add: hp)
    then show ?thesis using one none
      by (auto simp: c hp split: option.splits)
  next
    case False
    then have same: "cache ?s name = cache self name" "grads_for name (c # calls) = grads_for name calls"
      using Cons.prems(5)
      by (cases c; auto simp: optimizer_call_def RMSProp_update_frame step_def reset_step_def)+
    have "case cache (run init RMSProp_update ?s calls) name of
           None \<Rightarrow> cache ?s name = None \<and>
                   (hyperparameters ?s ''eps'' = None \<or> grads_for name calls = [])
         | Some c \<Rightarrow> shape c = sh \<and> bounded_by c (gs @ grads_for name calls)"
      using Cons.prems(1-5,7) rest by (intro Cons.IH) (simp_all add: hp same)
    then show ?thesis by (simp add: same hp cong: option.case_cong)
  qed
qed

subsection \<open>Objects in the store\<close>










lemma map_of_assign: "map_of (assign k a D) = (map_of D)(k \<mapsto> a)"
  by (induction D) auto


subsection \<open>What a method call writes\<close>









subsection \<open>The copy and the original\<close>



subsection \<open>New instances\<close>


subsection \<open>An instance after its first update, and a copy that is handed its array\<close>







section \<open>The claims\<close>




text \<open>
  C9. SGD with \<open>lr = 0.1\<close>, \<open>momentum = 0.9\<close>, \<open>clip_norm\<close> unset and a constant-rate
  scheduler: the first update of \<open>w\<close> with parameter \<open>[1.0]\<close> and gradient \<open>[2.0]\<close>
  caches the velocity \<open>[0.2]\<close> and returns \<open>[0.8]\<close>; the second, with parameter
  \<open>[0.8]\<close> and gradient \<open>[2.0]\<close>, caches \<open>[0.38]\<close> and returns \<open>[0.42]\<close>.
\<close>

theorem C9_sgd_scenario:
  assumes "init HNone (Some (1/10)) = ConstantScheduler (1/10)"
  shows "(let r1 = SGD_update (SGD_init init str (1/10) (9/10) HNone HNone)
                     (tensor_of [1] [1]) (tensor_of [1] [2]) ''w'' None;
               r2 = SGD_update (state_of r1) (tensor_of [1] [8/10]) (tensor_of [1] [2]) ''w'' None
           in returned r1 = Some (tensor_of [1] [8/10])
            \<and> cache (state_of r1) ''w'' = Some (tensor_of [1] [2/10])
            \<and> returned r2 = Some (tensor_of [1] [42/100])
            \<and> cache (state_of r2) ''w'' = Some (tensor_of [1] [38/100]))"
  using assms
  by (simp add: SGD_update_def SGD_init_def optimizer_init_def ConstantScheduler_def clip_def
      tensor_of_def zeros_like_def add_t_def sub_t_def scale_def elementwise_same Let_def)

theorem C9_sgd_scenario_witness:
  "constant_initializer HNone (Some (1/10)) = ConstantScheduler (1/10)
 \<and> (let r1 = SGD_update (SGD_init constant_initializer scheduler_str (1/10) (9/10) HNone HNone)
                     (tensor_of [1] [1]) (tensor_of [1] [2]) ''w'' None;
               r2 = SGD_update (state_of r1) (tensor_of [1] [8/10]) (tensor_of [1] [2]) ''w'' None
           in returned r1 = Some (tensor_of [1] [8/10])
            \<and> cache (state_of r1) ''w'' = Some (tensor_of [1] [2/10])
            \<and> returned r2 = Some (tensor_of [1] [42/100])
            \<and> cache (state_of r2) ''w'' = Some (tensor_of [1] [38/100]))"
  using C9_sgd_scenario[of constant_initializer scheduler_str]
  by (simp add: constant_initializer_def)

text \<open>
  C10. For each of the four optimizers, calling the instance is calling its \<open>update\<close>
  with the same arguments: the same result and the same state.
\<close>

theorem C10_call_is_update:
  "optimizer_call SGD_update s1 param param_grad param_name cur_loss
     = SGD_update s1 param param_grad param_name cur_loss
 \<and> optimizer_call AdaGrad_update s2 param param_grad param_name cur_loss
     = AdaGrad_update s2 param param_grad param_name cur_loss
 \<and> optimizer_call RMSProp_update s3 param param_grad param_name cur_loss
     = RMSProp_update s3 param param_grad param_name cur_loss
 \<and> optimizer_call Adam_update s4 param param_grad param_name cur_loss
     = Adam_update s4 param param_grad param_name cur_loss"
  by (simp add: optimizer_call_def)

lemma map_of_rev_distinct: "distinct (map fst xs) \<Longrightarrow> map_of (rev xs) = map_of xs"
proof (induction xs)
  case Nil
  then show ?case by simp
next
  case (Cons kv xs)
  obtain k v where kv: "kv = (k, v)" by (cases kv)
  from Cons.prems have "map_of xs k = None" by (simp add: kv map_of_eq_None_iff)
  then show ?case using Cons by (auto simp: kv map_add_def fun_eq_iff split: option.splits)
qed

lemma sqrt_25: "sqrt 25 = 5"
  using real_sqrt_abs[of 5] by simp

text \<open>
  C3. Every \<open>update\<close> passes its gradient through \<open>clip\<close> first. When \<open>clip_norm\<close> is
  unset the gradient is used as it is; when it is a number and the norm of the gradient
  is at most that number, likewise; when the norm exceeds it (a \<open>clip_norm\<close> that is
  not negative), the gradient used is \<open>grad * clip_norm / norm(grad)\<close>, whose norm is
  exactly \<open>clip_norm\<close>. For each of the four optimizers the result and the cache of an
  update are those of the update without clipping on the clipped gradient.
\<close>

theorem C3_clipping:
  "clip HNone g = Inr g
 \<and> (norm_t g = Some n \<and> n \<le> t \<longrightarrow> clip (HNum t) g = Inr g)
 \<and> (norm_t g = Some n \<and> 0 \<le> t \<and> t < n \<longrightarrow>
      clip (HNum t) g = Inr (div_scalar (times_scalar g t) n) \<and>
      norm_t (div_scalar (times_scalar g t) n) = Some t)
 \<and> (hyperparameters s1 ''clip_norm'' = Some cn \<and> clip cn g = Inr g' \<longrightarrow>
      returned (SGD_update s1 p g name l)
        = returned (SGD_update
            (s1\<lparr>hyperparameters := (hyperparameters s1)(''clip_norm'' \<mapsto> HNone)\<rparr>) p g' name l) \<and>
      cache (state_of (SGD_update s1 p g name l))
        = cache (state_of (SGD_update
            (s1\<lparr>hyperparameters := (hyperparameters s1)(''clip_norm'' \<mapsto> HNone)\<rparr>) p g' name l)))
 \<and> (hyperparameters s2 ''clip_norm'' = Some cn \<and> clip cn g = Inr g' \<longrightarrow>
      returned (AdaGrad_update s2 p g name l)
        = returned (AdaGrad_update
            (s2\<lparr>hyperparameters := (hyperparameters s2)(''clip_norm'' \<mapsto> HNone)\<rparr>) p g' name l) \<and>
      cache (state_of (AdaGrad_update s2 p g name l))
        = cache (state_of (AdaGrad_update
            (s2\<lparr>hyperparameters := (hyperparameters s2)(''clip_norm'' \<mapsto> HNone)\<rparr>) p g' name l)))
 \<and> (hyperparameters s3 ''clip_norm'' = Some cn \<and> clip cn g = Inr g' \<longrightarrow>
      returned (RMSProp_update s3 p g name l)
        = returned (RMSProp_update
            (s3\<lparr>hyperparameters := (hyperparameters s3)(''clip_norm'' \<mapsto> HNone)\<rparr>) p g' name l) \<and>
      cache (state_of (RMSProp_update s3 p g name l))
        = cache (state_of (RMSProp_update
            (s3\<lparr>hyperparameters := (hyperparameters s3)(''clip_norm'' \<mapsto> HNone)\<rparr>) p g' name l)))
 \<and> (hyperparameters s4 ''clip_norm'' = Some cn \<and> clip cn g = Inr g' \<longrightarrow>
      returned (Adam_update s4 p g name l)
        = returned (Adam_update
            (s4\<lparr>hyperparameters := (hyperparameters s4)(''clip_norm'' \<mapsto> HNone)\<rparr>) p g' name l) \<and>
      cache (state_of (Adam_update s4 p g name l))
        = cache (state_of (Adam_update
            (s4\<lparr>hyperparameters := (hyperparameters s4)(''clip_norm'' \<mapsto> HNone)\<rparr>) p g' name l)))"
proof -
  have unset: "clip HNone g = Inr g" by (rule clip_HNone)
  have within: "clip (HNum t) g = Inr g" if "norm_t g = Some n" "n \<le> t"
    using that by (simp add: clip_def)
  have beyond: "clip (HNum t) g = Inr (div_scalar (times_scalar g t) n) \<and>
      norm_t (div_scalar (times_scalar g t) n) = Some t"
    if "norm_t g = Some n" "0 \<le> t" "t < n"
  proof -
    from that(1) obtain xs where "vals g = Some xs" by (auto simp: norm_t_def)
    then have "norm_t (div_scalar (times_scalar g t) n) = Some t"
      using that by (rule norm_clipped)
    then show ?thesis using that by (simp add: clip_def)
  qed
  show ?thesis
    using unset within beyond
      SGD_update_uses_clip[of s1 cn g g' p name l]
      AdaGrad_update_uses_clip[of s2 cn g g' p name l]
      RMSProp_update_uses_clip[of s3 cn g g' p name l]
      Adam_update_uses_clip[of s4 cn g g' p name l]
    by blast
qed

theorem C3_clipping_witness:
  "norm_t (tensor_of [2] [3, 4]) = Some 5
 \<and> clip HNone (tensor_of [2] [3, 4]) = Inr (tensor_of [2] [3, 4])
 \<and> clip (HNum 5) (tensor_of [2] [3, 4]) = Inr (tensor_of [2] [3, 4])
 \<and> clip (HNum 1) (tensor_of [2] [3, 4]) = Inr (div_scalar (times_scalar (tensor_of [2] [3, 4]) 1) 5)
 \<and> div_scalar (times_scalar (tensor_of [2] [3, 4]) 1) 5 = tensor_of [2] [3/5, 4/5]
 \<and> norm_t (div_scalar (times_scalar (tensor_of [2] [3, 4]) 1) 5) = Some 1
 \<and> returned (SGD_update (SGD_init constant_initializer scheduler_str (1/10) 0 (HNum 1) HNone)
       (tensor_of [2] [1, 1]) (tensor_of [2] [3, 4]) ''w'' None)
     = returned (SGD_update
         ((SGD_init constant_initializer scheduler_str (1/10) 0 (HNum 1) HNone)
            \<lparr>hyperparameters :=
               (hyperparameters (SGD_init constant_initializer scheduler_str (1/10) 0 (HNum 1) HNone))
               (''clip_norm'' \<mapsto> HNone)\<rparr>)
         (tensor_of [2] [1, 1]) (tensor_of [2] [3/5, 4/5]) ''w'' None)
 \<and> returned (AdaGrad_update (AdaGrad_init constant_initializer scheduler_str (1/10) (1/10000000) (HNum 1) HNone)
       (tensor_of [2] [1, 1]) (tensor_of [2] [3, 4]) ''w'' None)
     = returned (AdaGrad_update
         ((AdaGrad_init constant_initializer scheduler_str (1/10) (1/10000000) (HNum 1) HNone)
            \<lparr>hyperparameters :=
               (hyperparameters (AdaGrad_init constant_initializer scheduler_str (1/10) (1/10000000) (HNum 1) HNone))
               (''clip_norm'' \<mapsto> HNone)\<rparr>)
         (tensor_of [2] [1, 1]) (tensor_of [2] [3/5, 4/5]) ''w'' None)
 \<and> returned (RMSProp_update (RMSProp_init constant_initializer scheduler_str (1/10) (9/10) (1/10000000) (HNum 1) HNone)
       (tensor_of [2] [1, 1]) (tensor_of [2] [3, 4]) ''w'' None)
     = returned (RMSProp_update
         ((RMSProp_init constant_initializer scheduler_str (1/10) (9/10) (1/10000000) (HNum 1) HNone)
            \<lparr>hyperparameters :=
               (hyperparameters (RMSProp_init constant_initializer scheduler_str (1/10) (9/10) (1/10000000) (HNum 1) HNone))
               (''clip_norm'' \<mapsto> HNone)\<rparr>)
         (tensor_of [2] [1, 1]) (tensor_of [2] [3/5, 4/5]) ''w'' None)
 \<and> returned (Adam_update (Adam_init constant_initializer scheduler_str (1/10) (9/10) (999/1000) (1/10000000) (HNum 1) HNone)
       (tensor_of [2] [1, 1]) (tensor_of [2] [3, 4]) ''w'' None)
     = returned (Adam_update
         ((Adam_init constant_initializer scheduler_str (1/10) (9/10) (999/1000) (1/10000000) (HNum 1) HNone)
            \<lparr>hyperparameters :=
               (hyperparameters (Adam_init constant_initializer scheduler_str (1/10) (9/10) (999/1000) (1/10000000) (HNum 1) HNone))
               (''clip_norm'' \<mapsto> HNone)\<rparr>)
         (tensor_of [2] [1, 1]) (tensor_of [2] [3/5, 4/5]) ''w'' None)"
proof -
  have n: "norm_t (tensor_of [2] [3, 4]) = Some 5"
    by (simp add: norm_t_def tensor_of_def sqrt_25)
  have c: "clip (HNum 1) (tensor_of [2] [3, 4]) = Inr (tensor_of [2] [3/5, 4/5])"
    by (simp add: clip_def n) (simp add: tensor_of_def div_scalar_def times_scalar_def)
  have h1: "hyperparameters (SGD_init constant_initializer scheduler_str (1/10) 0 (HNum 1) HNone)
             ''clip_norm'' = Some (HNum 1)"
    by (simp add: SGD_init_def optimizer_init_def)
  have h2: "hyperparameters (AdaGrad_init constant_initializer scheduler_str (1/10) (1/10000000) (HNum 1) HNone)
             ''clip_norm'' = Some (HNum 1)"
    by (simp add: AdaGrad_init_def optimizer_init_def)
  have h3: "hyperparameters (RMSProp_init constant_initializer scheduler_str (1/10) (9/10) (1/10000000) (HNum 1) HNone)
             ''clip_norm'' = Some (HNum 1)"
    by (simp add: RMSProp_init_def optimizer_init_def)
  have h4: "hyperparameters (Adam_init constant_initializer scheduler_str (1/10) (9/10) (999/1000) (1/10000000) (HNum 1) HNone)
             ''clip_norm'' = Some (HNum 1)"
    by (simp add: Adam_init_def optimizer_init_def)
  note T = C3_clipping[where g = "tensor_of [2] [3, 4]" and n = 5 and cn = "HNum 1"
      and g' = "tensor_of [2] [3/5, 4/5]" and p = "tensor_of [2] [1, 1]" and name = "''w''"
      and l = None
      and ?s1.0 = "SGD_init constant_initializer scheduler_str (1/10) 0 (HNum 1) HNone"
      and ?s2.0 = "AdaGrad_init constant_initializer scheduler_str (1/10) (1/10000000) (HNum 1) HNone"
      and ?s3.0 = "RMSProp_init constant_initializer scheduler_str (1/10) (9/10) (1/10000000) (HNum 1) HNone"
      and ?s4.0 = "Adam_init constant_initializer scheduler_str (1/10) (9/10) (999/1000) (1/10000000) (HNum 1) HNone"]
  have links: "?thesis" if "clip (HNum 5) (tensor_of [2] [3, 4]) = Inr (tensor_of [2] [3, 4])"
    "clip (HNum 1) (tensor_of [2] [3, 4]) = Inr (div_scalar (times_scalar (tensor_of [2] [3, 4]) 1) 5)"
    "norm_t (div_scalar (times_scalar (tensor_of [2] [3, 4]) 1) 5) = Some 1"
    using that n c h1 h2 h3 h4 T[where t = 1]
    by (simp add: tensor_of_def div_scalar_def times_scalar_def)
  show ?thesis
    using n T[where t = 5] T[where t = 1] by (intro links) simp_all
qed

text \<open>
  C7. \<open>set_params\<close> overwrites the keys that exist and nothing else: a key of
  \<open>hyperparameters\<close> (of the cache) that is a key of \<open>hparam_dict\<close> (of \<open>cache_dict\<close>)
  gets the value given there, every other key keeps its value, a key that is not there
  beforehand is not there afterwards, and the step counter is untouched. A dictionary
  argument has distinct keys; an argument that is not given counts as the empty one.
\<close>

theorem C7_set_params:
  assumes "distinct (map fst (items hparam_dict))" "distinct (map fst (items cache_dict))"
  shows "hyperparameters (set_params init self hparam_dict cache_dict) k =
           (case hyperparameters self k of
              None \<Rightarrow> None
            | Some old \<Rightarrow>
                (case map_of (items hparam_dict) k of None \<Rightarrow> Some old | Some v \<Rightarrow> Some v))
       \<and> cache (set_params init self hparam_dict cache_dict) k =
           (case cache self k of
              None \<Rightarrow> None
            | Some old \<Rightarrow>
                (case map_of (items cache_dict) k of None \<Rightarrow> Some old | Some v \<Rightarrow> Some v))
       \<and> cur_step (set_params init self hparam_dict cache_dict) = cur_step self"
  using assms
  by (simp add: set_params_hyperparameters set_params_cache set_params_cur_step
      map_of_rev_distinct cong: option.case_cong)

theorem C7_set_params_witness:
  "distinct (map fst (items (Some [(''lr'', HNum (1/2)), (''bogus'', HNum 1)])))
 \<and> distinct (map fst (items (Some [(''w'', tensor_of [1] [7]), (''v'', tensor_of [1] [9])])))
 \<and> hyperparameters
      (set_params constant_initializer
         (state_of (SGD_update (SGD_init constant_initializer scheduler_str (1/10) 0 HNone HNone)
            (tensor_of [1] [1]) (tensor_of [1] [2]) ''w'' None))
         (Some [(''lr'', HNum (1/2)), (''bogus'', HNum 1)])
         (Some [(''w'', tensor_of [1] [7]), (''v'', tensor_of [1] [9])])) ''lr''
     = Some (HNum (1/2))
 \<and> hyperparameters
      (set_params constant_initializer
         (state_of (SGD_update (SGD_init constant_initializer scheduler_str (1/10) 0 HNone HNone)
            (tensor_of [1] [1]) (tensor_of [1] [2]) ''w'' None))
         (Some [(''lr'', HNum (1/2)), (''bogus'', HNum 1)])
         (Some [(''w'', tensor_of [1] [7]), (''v'', tensor_of [1] [9])])) ''bogus''
     = None
 \<and> cache
      (set_params constant_initializer
         (state_of (SGD_update (SGD_init constant_initializer scheduler_str (1/10) 0 HNone HNone)
            (tensor_of [1] [1]) (tensor_of [1] [2]) ''w'' None))
         (Some [(''lr'', HNum (1/2)), (''bogus'', HNum 1)])
         (Some [(''w'', tensor_of [1] [7]), (''v'', tensor_of [1] [9])])) ''w''
     = Some (tensor_of [1] [7])
 \<and> cache
      (set_params constant_initializer
         (state_of (SGD_update (SGD_init constant_initializer scheduler_str (1/10) 0 HNone HNone)
            (tensor_of [1] [1]) (tensor_of [1] [2]) ''w'' None))
         (Some [(''lr'', HNum (1/2)), (''bogus'', HNum 1)])
         (Some [(''w'', tensor_of [1] [7]), (''v'', tensor_of [1] [9])])) ''v''
     = None"
proof -
  let ?s = "state_of (SGD_update (SGD_init constant_initializer scheduler_str (1/10) 0 HNone HNone)
            (tensor_of [1] [1]) (tensor_of [1] [2]) ''w'' None)"
  let ?h = "Some [(''lr'', HNum (1/2)), (''bogus'', HNum 1)]"
  let ?c = "Some [(''w'', tensor_of [1] [7]), (''v'', tensor_of [1] [9])]"
  have d: "distinct (map fst (items ?h))" "distinct (map fst (items ?c))"
    by (simp_all add: items_def)
  have s: "hyperparameters ?s ''lr'' = Some (HNum (1/10))" "hyperparameters ?s ''bogus'' = None"
    "cache ?s ''w'' = Some (tensor_of [1] [2/10])" "cache ?s ''v'' = None"
    by (simp_all add: SGD_update_def SGD_init_def optimizer_init_def clip_def
        constant_initializer_def ConstantScheduler_def
        tensor_of_def zeros_like_def add_t_def sub_t_def scale_def elementwise_same Let_def)
  show ?thesis
    using d s
      C7_set_params[OF d, of constant_initializer ?s "''lr''"]
      C7_set_params[OF d, of constant_initializer ?s "''bogus''"]
      C7_set_params[OF d, of constant_initializer ?s "''w''"]
      C7_set_params[OF d, of constant_initializer ?s "''v''"]
    by (simp add: items_def)
qed




text \<open>
  C4. Adam's counter \<open>t\<close> of a parameter name counts the update calls for that name: from
  an instance whose hyperparameters \<open>decay1\<close>, \<open>decay2\<close>, \<open>eps\<close> and \<open>clip_norm\<close> are
  there, \<open>clip_norm\<close> unset or a number, and over any sequence of \<open>update\<close>, \<open>step\<close>
  and \<open>reset_step\<close> calls, the counter of a name ends at its value before (0 for a
  name not in the cache) plus the number of update calls for that name. So it is 1 after
  the first update of a name and one more after each further one, whatever the calls for
  other names and whatever the step counter.
\<close>

theorem C4_adam_counter:
  assumes "hyperparameters self ''decay1'' = Some v1" "hyperparameters self ''decay2'' = Some v2"
    "hyperparameters self ''eps'' = Some v3" "hyperparameters self ''clip_norm'' = Some cn"
    "\<forall>w. cn \<noteq> HStr w" "\<forall>c\<in>set calls. \<not> is_set_params c"
  shows "map_option entry_t (cache (run init Adam_update self calls) name) =
         (if grads_for name calls = [] then map_option entry_t (cache self name)
          else Some ((case cache self name of None \<Rightarrow> 0 | Some old \<Rightarrow> entry_t old)
                     + int (length (grads_for name calls))))"
  using assms by (rule Adam_run_counter)

theorem C4_adam_counter_witness:
  "map_option entry_t
     (cache (run constant_initializer Adam_update
        (Adam_init constant_initializer scheduler_str (1/1000) (9/10) (999/1000) (1/10000000)
           HNone HNone)
        [Update (tensor_of [1] [1]) (tensor_of [1] [2]) ''w'' None,
         Update (tensor_of [1] [1]) (tensor_of [1] [2]) ''b'' None,
         Step,
         Update (tensor_of [1] [1]) (tensor_of [1] [2]) ''w'' None]) ''w'') = Some 2
 \<and> map_option entry_t
     (cache (run constant_initializer Adam_update
        (Adam_init constant_initializer scheduler_str (1/1000) (9/10) (999/1000) (1/10000000)
           HNone HNone)
        [Update (tensor_of [1] [1]) (tensor_of [1] [2]) ''w'' None,
         Update (tensor_of [1] [1]) (tensor_of [1] [2]) ''b'' None,
         Step,
         Update (tensor_of [1] [1]) (tensor_of [1] [2]) ''w'' None]) ''b'') = Some 1"
proof -
  let ?s = "Adam_init constant_initializer scheduler_str (1/1000) (9/10) (999/1000) (1/10000000)
           HNone HNone"
  let ?calls = "[Update (tensor_of [1] [1]) (tensor_of [1] [2]) ''w'' None,
         Update (tensor_of [1] [1]) (tensor_of [1] [2]) ''b'' None,
         Step,
         Update (tensor_of [1] [1]) (tensor_of [1] [2]) ''w'' None] :: adam_entry call list"
  have h: "hyperparameters ?s ''decay1'' = Some (HNum (9/10))"
    "hyperparameters ?s ''decay2'' = Some (HNum (999/1000))"
    "hyperparameters ?s ''eps'' = Some (HNum (1/10000000))"
    "hyperparameters ?s ''clip_norm'' = Some HNone" "\<forall>w. HNone \<noteq> HStr w"
    "\<forall>c\<in>set ?calls. \<not> is_set_params c"
    by (simp_all add: Adam_init_def optimizer_init_def)
  have c: "cache ?s ''w'' = None" "cache ?s ''b'' = None"
    by (simp_all add: Adam_init_def optimizer_init_def)
  show ?thesis
    using C4_adam_counter[OF h, of constant_initializer "''w''"]
      C4_adam_counter[OF h, of constant_initializer "''b''"] c
    by simp
qed

text \<open>
  C5. AdaGrad's cached sum of squared gradients never gets smaller: over any sequence
  of \<open>update\<close>, \<open>step\<close> and \<open>reset_step\<close> calls with real-valued gradients for the name,
  \<open>clip_norm\<close> unset or not negative, the cached array of a name keeps its shape and
  every element of it is at least what it was, and a name that was not in the cache
  gets a real-valued array or stays out.
\<close>

theorem C5_adagrad_monotone:
  assumes "clip_norm_ok (hyperparameters self ''clip_norm'')"
    "\<forall>c\<in>set calls. \<not> is_set_params c"
    "\<forall>g\<in>set (grads_for name calls). real_tensor g"
    "case cache self name of None \<Rightarrow> True | Some c \<Rightarrow> real_tensor c"
  shows "cache_le (cache self name) (cache (run init AdaGrad_update self calls) name)"
  using assms by (rule AdaGrad_run_grows)

theorem C5_adagrad_monotone_witness:
  "cache ((AdaGrad_init constant_initializer scheduler_str (1/100) (1/10000000) (HNum 10) HNone)
            \<lparr>cache := [''w'' \<mapsto> tensor_of [2] [1, 4]]\<rparr>) ''w'' = Some (tensor_of [2] [1, 4])
 \<and> cache_le (Some (tensor_of [2] [1, 4]))
     (cache (run constant_initializer AdaGrad_update
        ((AdaGrad_init constant_initializer scheduler_str (1/100) (1/10000000) (HNum 10) HNone)
            \<lparr>cache := [''w'' \<mapsto> tensor_of [2] [1, 4]]\<rparr>)
        [Update (tensor_of [2] [1, 1]) (tensor_of [2] [2, 0]) ''w'' None,
         Step,
         Update (tensor_of [2] [1, 1]) (tensor_of [1] [3]) ''w'' None]) ''w'')"
proof -
  let ?s = "(AdaGrad_init constant_initializer scheduler_str (1/100) (1/10000000) (HNum 10) HNone)
            \<lparr>cache := [''w'' \<mapsto> tensor_of [2] [1, 4]]\<rparr>"
  let ?calls = "[Update (tensor_of [2] [1, 1]) (tensor_of [2] [2, 0]) ''w'' None,
         Step,
         Update (tensor_of [2] [1, 1]) (tensor_of [1] [3]) ''w'' None] :: tensor call list"
  have h: "clip_norm_ok (hyperparameters ?s ''clip_norm'')"
    "\<forall>c\<in>set ?calls. \<not> is_set_params c"
    "\<forall>g\<in>set (grads_for ''w'' ?calls). real_tensor g"
    "case cache ?s ''w'' of None \<Rightarrow> True | Some c \<Rightarrow> real_tensor c"
    by (simp_all add: AdaGrad_init_def optimizer_init_def clip_norm_ok_def real_tensor_def
        tensor_of_def)
  show ?thesis
    using C5_adagrad_monotone[OF h, of constant_initializer] by simp
qed

text \<open>
  C6. RMSProp with \<open>decay\<close> in \<open>[0, 1]\<close> and \<open>clip_norm\<close> unset or not negative, from a
  name that is not in the cache, over any sequence of \<open>update\<close>, \<open>step\<close> and
  \<open>reset_step\<close> calls whose gradients for the name are real-valued and of one shape:
  the cached average of the name has that shape, and every element of it is at least 0
  and at most the largest square of the elements at its place in the gradients given for
  the name so far. The name is in the cache as soon as one update was called for it
  (with \<open>eps\<close> among the hyperparameters).
\<close>

theorem C6_rmsprop_bounded:
  assumes "hyperparameters self ''decay'' = Some (HNum d)" "0 \<le> d" "d \<le> 1"
    "clip_norm_ok (hyperparameters self ''clip_norm'')"
    "\<forall>c\<in>set calls. \<not> is_set_params c"
    "\<forall>g\<in>set (grads_for name calls). real_tensor g \<and> shape g = sh"
    "cache self name = None"
  shows "case cache (run init RMSProp_update self calls) name of
           None \<Rightarrow> hyperparameters self ''eps'' = None \<or> grads_for name calls = []
         | Some c \<Rightarrow> shape c = sh \<and> bounded_by c (grads_for name calls)"
  using RMSProp_run_bounded[OF assms(1-6), of "[]" init] assms(7)
  by (auto split: option.splits)

theorem C6_rmsprop_bounded_witness:
  "(case cache (run constant_initializer RMSProp_update
        (RMSProp_init constant_initializer scheduler_str (1/1000) (9/10) (1/10000000)
           (HNum 1) HNone)
        [Update (tensor_of [2] [1, 1]) (tensor_of [2] [3, 4]) ''w'' None,
         Step,
         Update (tensor_of [2] [1, 1]) (tensor_of [2] [1, 0]) ''w'' None]) ''w'' of
      None \<Rightarrow> False
    | Some c \<Rightarrow> shape c = [2] \<and>
        bounded_by c [tensor_of [2] [3, 4], tensor_of [2] [1, 0]])"
proof -
  let ?s = "RMSProp_init constant_initializer scheduler_str (1/1000) (9/10) (1/10000000)
           (HNum 1) HNone"
  let ?calls = "[Update (tensor_of [2] [1, 1]) (tensor_of [2] [3, 4]) ''w'' None,
         Step,
         Update (tensor_of [2] [1, 1]) (tensor_of [2] [1, 0]) ''w'' None] :: tensor call list"
  have h: "hyperparameters ?s ''decay'' = Some (HNum (9/10))" "(0::real) \<le> 9/10" "(9/10::real) \<le> 1"
    "clip_norm_ok (hyperparameters ?s ''clip_norm'')"
    "\<forall>c\<in>set ?calls. \<not> is_set_params c"
    "\<forall>g\<in>set (grads_for ''w'' ?calls). real_tensor g \<and> shape g = [2]"
    "cache ?s ''w'' = None"
    by (simp_all add: RMSProp_init_def optimizer_init_def clip_norm_ok_def real_tensor_def
        tensor_of_def)
  have e: "hyperparameters ?s ''eps'' \<noteq> None"
    by (simp add: RMSProp_init_def optimizer_init_def)
  show ?thesis
    using C6_rmsprop_bounded[OF h, of constant_initializer] e
    by (auto split: option.splits)
qed










end
